theory Spec2Isabelle
  imports Complex_Main
begin

section \<open>Values of the program\<close>

text \<open>
  The program is the React component \<open>Application\<close> of the gavcoin dapp
  (\<open>js/src/dapps/gavcoin/Application/application.js\<close>). Addresses are strings, amounts are
  \<open>BigNumber\<close>s of bignumber.js: arbitrary-precision decimals, embedded in the rationals.
  A rejected promise and a thrown exception both carry an \<open>error\<close>.
\<close>

type_synonym address = string
type_synonym BigNumber = rat

datatype js_value = JNull | JUndefined | JBoolean bool | JNumber int | JString string

datatype error = Rejected string | TypeError string

subsection \<open>BigNumber arithmetic\<close>

text \<open>
  bignumber.js with its default configuration: \<open>plus\<close> is exact, \<open>div\<close> rounds the quotient
  to \<open>DECIMAL_PLACES = 20\<close> decimals with \<open>ROUND_HALF_UP\<close> (halves go away from zero),
  \<open>toFormat(dp)\<close> rounds to \<open>dp\<close> decimals the same way and prints the digits with groups of
  three separated by commas in the integer part.
\<close>

definition bn_mantissa :: "nat \<Rightarrow> BigNumber \<Rightarrow> int" where
  "bn_mantissa dp x = \<lfloor>\<bar>x\<bar> * 10 ^ dp + 1 / 2\<rfloor>"

definition bn_round :: "nat \<Rightarrow> BigNumber \<Rightarrow> BigNumber" where
  "bn_round dp x =
     (if x < 0 then - (of_int (bn_mantissa dp x) / 10 ^ dp)
      else of_int (bn_mantissa dp x) / 10 ^ dp)"

definition DECIMAL_PLACES :: nat where
  "DECIMAL_PLACES = 20"

definition bn_add :: "BigNumber \<Rightarrow> BigNumber \<Rightarrow> BigNumber" where
  "bn_add x y = x + y"

definition bn_div :: "BigNumber \<Rightarrow> BigNumber \<Rightarrow> BigNumber" where
  "bn_div x y = bn_round DECIMAL_PLACES (x / y)"

definition bn_gt :: "BigNumber \<Rightarrow> BigNumber \<Rightarrow> bool" where
  "bn_gt x y = (y < x)"

definition DIVISOR :: BigNumber where
  "DIVISOR = 10 ^ 6"

text \<open>
  Modelled from the spec: \<open>Api.format.fromWei\<close> lives in the API library of the repository,
  which is not among the sources at hand. The spec says that native amounts are
  "converted from their base unit" (wei), with 18 decimals to the unit.
\<close>

definition fromWei :: "BigNumber \<Rightarrow> BigNumber" where
  "fromWei v = bn_div v (10 ^ 18)"

subsection \<open>Printing and reading decimals\<close>

definition digit_char :: "int \<Rightarrow> char" where
  "digit_char d = ''0123456789'' ! nat d"

function digits :: "int \<Rightarrow> string" where
  "digits n = (if n < 10 then [digit_char n] else digits (n div 10) @ [digit_char (n mod 10)])"
  by pat_completeness auto
termination
  by (relation "measure nat") auto

declare digits.simps [simp del]

fun group3 :: "string \<Rightarrow> string" where
  "group3 s =
     (if length s \<le> 3 then s
      else group3 (take (length s - 3) s) @ CHR '','' # drop (length s - 3) s)"

declare group3.simps [simp del]

definition pad_zeros :: "nat \<Rightarrow> string \<Rightarrow> string" where
  "pad_zeros dp s = replicate (dp - length s) (CHR ''0'') @ s"

definition toFormat :: "nat \<Rightarrow> BigNumber \<Rightarrow> string" where
  "toFormat dp x =
     (let m = bn_mantissa dp x
      in (if x < 0 then ''-'' else [])
         @ group3 (digits (m div 10 ^ dp))
         @ (if dp = 0 then [] else CHR ''.'' # pad_zeros dp (digits (m mod 10 ^ dp))))"

text \<open>
  The number a printed decimal denotes; it is the reader's side of \<open>toFormat\<close>, used to say
  what a displayed balance means.
\<close>

definition digit_val :: "char \<Rightarrow> int" where
  "digit_val c = of_char c - 48"

definition parse_int :: "string \<Rightarrow> int" where
  "parse_int s = foldl (\<lambda>n c. 10 * n + digit_val c) 0 s"

definition decimal_value :: "string \<Rightarrow> rat" where
  "decimal_value s =
     (let neg = (case s of [] \<Rightarrow> False | c # _ \<Rightarrow> c = CHR ''-'');
          body = filter (\<lambda>c. c \<noteq> CHR '','') (if neg then tl s else s);
          ip = takeWhile (\<lambda>c. c \<noteq> CHR ''.'') body;
          fp = drop 1 (dropWhile (\<lambda>c. c \<noteq> CHR ''.'') body);
          v = of_int (parse_int ip) + of_int (parse_int fp) / 10 ^ length fp
      in if neg then - v else v)"

section \<open>The component's state\<close>

text \<open>
  An account object as \<open>attachInterface\<close> creates it has the fields \<open>address\<close>, \<open>name\<close> and
  \<open>balance\<close>; a synchronization pass adds \<open>ethBalance\<close>, \<open>gavBalance\<close> and \<open>hasGav\<close>. A field
  that is not set yet reads \<open>undefined\<close> in JavaScript: \<open>None\<close> here.
\<close>

record account_info =
  name :: "string option"

record account =
  address :: address
  name :: string
  balance :: "BigNumber option"
  ethBalance :: "string option"
  gavBalance :: "string option"
  hasGav :: "bool option"

text \<open>The instance of a contract bound to an address by \<open>api.newContract\<close>.\<close>

datatype contract = Contract address

record state =
  action :: js_value
  address :: "address option"
  ethBalance :: BigNumber
  gavBalance :: BigNumber
  accounts :: "account list"
  contractInstance :: "contract option"
  loading :: bool
  blockNumber :: "BigNumber option"
  totalSupply :: "BigNumber option"
  remaining :: "BigNumber option"
  price :: "BigNumber option"

definition initial_state :: state where
  "initial_state =
     \<lparr> action = JNull, address = None, ethBalance = 0, gavBalance = 0, accounts = [],
       contractInstance = None, loading = True, blockNumber = None, totalSupply = None,
       remaining = None, price = None \<rparr>"

subsection \<open>Rendering of the modals\<close>

datatype element =
    ActionBuyIn "account list" "BigNumber option"
  | ActionRefund "account list" "BigNumber option"
  | ActionTransfer "account list"

definition renderModals :: "state \<Rightarrow> element option" where
  "renderModals s =
     (if action s = JString ''BuyIn'' then Some (ActionBuyIn (accounts s) (price s))
      else if action s = JString ''Refund'' then Some (ActionRefund (accounts s) (price s))
      else if action s = JString ''Transfer'' then Some (ActionTransfer (accounts s))
      else None)"

subsection \<open>The action handlers\<close>

definition onAction :: "js_value \<Rightarrow> state \<Rightarrow> state" where
  "onAction a s = s\<lparr>action := a\<rparr>"

definition onActionClose :: "state \<Rightarrow> state" where
  "onActionClose s = s\<lparr>action := JNull\<rparr>"

section \<open>Promises and the world around the component\<close>

text \<open>
  The component lives in a world: its React state, the browser console, the handlers it has
  subscribed to the block-number stream, the promise chains that are still waiting for the
  remote node, the rejections no handler caught, and the exceptions a handler threw back
  to the notifier that called it. A \<open>.then\<close> callback runs when the promise it waits for
  settles; until then the chain is a \<open>pending\<close> entry that remembers what the closure captured.
\<close>

datatype log_entry = ConsoleLog string | ConsoleError error

datatype pending =
    AwaitRegistryAddress
  | AwaitLookup contract
  | AwaitCounters BigNumber contract
  | AwaitBalances "address list"

record world =
  st :: state
  console :: "log_entry list"
  subscriptions :: nat
  pendings :: "pending list"
  unhandled :: "error list"
  thrown :: "error list"

definition initial_world :: world where
  "initial_world =
     \<lparr> st = initial_state, console = [], subscriptions = 0, pendings = [], unhandled = [],
       thrown = [] \<rparr>"

text \<open>
  \<open>Promise.all\<close> resolves with all the values when every promise resolves and rejects as
  soon as one rejects. Which rejection it reports when several reads fail depends on their
  timing; the model reports the leftmost one.
\<close>

fun promise_all :: "(error + 'a) list \<Rightarrow> error + 'a list" where
  "promise_all [] = Inr []"
| "promise_all (Inl e # rs) = Inl e"
| "promise_all (Inr v # rs) =
     (case promise_all rs of Inl e \<Rightarrow> Inl e | Inr vs \<Rightarrow> Inr (v # vs))"

definition promise_all2 :: "error + 'a \<Rightarrow> error + 'b \<Rightarrow> error + 'a \<times> 'b" where
  "promise_all2 ra rb =
     (case ra of Inl e \<Rightarrow> Inl e
      | Inr a \<Rightarrow> (case rb of Inl e \<Rightarrow> Inl e | Inr b \<Rightarrow> Inr (a, b)))"

definition promise_all3 ::
  "error + 'a \<Rightarrow> error + 'b \<Rightarrow> error + 'c \<Rightarrow> error + 'a \<times> 'b \<times> 'c" where
  "promise_all3 ra rb rc = promise_all2 ra (promise_all2 rb rc)"

text \<open>What the remote node answers to the reads a pending chain is waiting for.\<close>

datatype response =
    RegistryAddress "error + address"
  | Lookup "error + address" "error + address list" "error + (address \<rightharpoonup> account_info)"
  | Counters "error + BigNumber" "error + BigNumber" "error + BigNumber"
  | Balances "address \<Rightarrow> error + BigNumber" "address \<Rightarrow> error + BigNumber"

section \<open>The synchronization pass: \<open>onNewBlockNumber\<close>\<close>

text \<open>
  The handler reads \<open>instance\<close> from the state and starts the three counter reads; it
  returns nothing and attaches no rejection handler to the chain. Reading a method of a
  \<open>null\<close> instance throws a \<open>TypeError\<close> to the caller.
\<close>

definition onNewBlockNumber :: "BigNumber \<Rightarrow> world \<Rightarrow> world" where
  "onNewBlockNumber bn w =
     (case contractInstance (st w) of
        None \<Rightarrow> w\<lparr>thrown := thrown w @ [TypeError ''instance is null'']\<rparr>
      | Some inst \<Rightarrow> w\<lparr>pendings := pendings w @ [AwaitCounters bn inst]\<rparr>)"

text \<open>
  The first \<open>.then\<close>: \<open>setState\<close> of the block number and the three counters, then one
  \<open>balanceOf\<close> and one \<open>getBalance\<close> query per account of the state.
\<close>

definition onNewBlockNumber_then1 ::
  "BigNumber \<Rightarrow> contract \<Rightarrow> BigNumber \<times> BigNumber \<times> BigNumber \<Rightarrow> world \<Rightarrow> world" where
  "onNewBlockNumber_then1 bn inst r w =
     (case r of (ts, rm, pr) \<Rightarrow>
        let s = (st w)\<lparr>blockNumber := Some bn, totalSupply := Some ts,
                       remaining := Some rm, price := Some pr\<rparr>
        in w\<lparr>st := s,
             pendings := pendings w @ [AwaitBalances (map account.address (accounts s))]\<rparr>)"

text \<open>
  The callback of \<open>accounts.map\<close> in the second \<open>.then\<close>, applied with the index running
  over the accounts of the state. An index past the end of a balance array reads
  \<open>undefined\<close>, and calling a method on it throws. The callback assigns to the account
  objects of the state; the model leaves the state as it was when the callback throws,
  a case that no session reaches (lemma \<open>session_balance_arrays\<close>).
\<close>

definition update_account :: "account \<Rightarrow> BigNumber \<Rightarrow> BigNumber \<Rightarrow> account" where
  "update_account a eb gb =
     a\<lparr>account.ethBalance := Some (toFormat 3 (fromWei eb)),
       account.gavBalance := Some (toFormat 6 (bn_div gb DIVISOR)),
       hasGav := Some (bn_gt gb 0)\<rparr>"

fun update_accounts ::
  "account list \<Rightarrow> BigNumber list \<Rightarrow> BigNumber list \<Rightarrow> error + account list" where
  "update_accounts [] ebs gbs = Inr []"
| "update_accounts (a # as) (eb # ebs) (gb # gbs) =
     (case update_accounts as ebs gbs of
        Inl e \<Rightarrow> Inl e
      | Inr as' \<Rightarrow> Inr (update_account a eb gb # as'))"
| "update_accounts (a # as) ebs gbs = Inl (TypeError ''balance is undefined'')"

definition reduce_add :: "BigNumber list \<Rightarrow> BigNumber" where
  "reduce_add balances = foldl bn_add 0 balances"

text \<open>
  The second \<open>.then\<close>: the totals and the accounts are computed from the two balance
  arrays and stored by one \<open>setState\<close>. An exception in the callback rejects the chain,
  which has no handler.
\<close>

definition onNewBlockNumber_then2 :: "BigNumber list \<times> BigNumber list \<Rightarrow> world \<Rightarrow> world" where
  "onNewBlockNumber_then2 r w =
     (case r of (gavBalances, ethBalances) \<Rightarrow>
        (case update_accounts (accounts (st w)) ethBalances gavBalances of
           Inl e \<Rightarrow> w\<lparr>unhandled := unhandled w @ [e]\<rparr>
         | Inr as \<Rightarrow>
             w\<lparr>st := (st w)\<lparr>ethBalance := reduce_add ethBalances,
                             gavBalance := reduce_add gavBalances,
                             accounts := as\<rparr>\<rparr>))"

text \<open>
  A rejected \<open>Promise.all\<close> skips the \<open>.then\<close> callbacks that follow it. The chain of
  \<open>onNewBlockNumber\<close> ends there: the rejection is left unhandled.
\<close>

definition onNewBlockNumber_rejected :: "error \<Rightarrow> world \<Rightarrow> world" where
  "onNewBlockNumber_rejected e w = w\<lparr>unhandled := unhandled w @ [e]\<rparr>"

section \<open>Startup: \<open>attachInterface\<close>\<close>

text \<open>
  \<open>attachInterface\<close> asks the node for the registry address. Its first \<open>.then\<close> logs the
  address and starts three reads at once: the address registered for gavcoin, the list of
  accounts and their metadata. Its second \<open>.then\<close> logs the contract address, binds the
  contract, builds the accounts, publishes them with \<open>loading = false\<close> by one
  \<open>setState\<close>, and only then subscribes \<open>onNewBlockNumber\<close> to the block numbers. The chain
  ends in \<open>.catch\<close>, which logs a rejection or an exception of either callback with
  \<open>console.error\<close>.
\<close>

definition attachInterface :: "world \<Rightarrow> world" where
  "attachInterface w = w\<lparr>pendings := pendings w @ [AwaitRegistryAddress]\<rparr>"

definition attachInterface_catch :: "error \<Rightarrow> world \<Rightarrow> world" where
  "attachInterface_catch e w = w\<lparr>console := console w @ [ConsoleError e]\<rparr>"

definition attachInterface_then1 :: "address \<Rightarrow> world \<Rightarrow> world" where
  "attachInterface_then1 registryAddress w =
     w\<lparr>console := console w @ [ConsoleLog (''the registry was found at '' @ registryAddress)],
       pendings := pendings w @ [AwaitLookup (Contract registryAddress)]\<rparr>"

text \<open>
  The callback of \<open>addresses.map\<close>: \<open>infos[address].name || 'Unnamed'\<close> throws when
  \<open>infos\<close> has no entry for the address, and takes the sentinel when the name is
  \<open>undefined\<close> or the empty string.
\<close>

definition new_account :: "address \<Rightarrow> account_info \<Rightarrow> account" where
  "new_account a info =
     \<lparr> account.address = a,
       account.name = (case account_info.name info of
                         None \<Rightarrow> ''Unnamed''
                       | Some n \<Rightarrow> if n = [] then ''Unnamed'' else n),
       balance = Some 0,
       account.ethBalance = None, account.gavBalance = None, hasGav = None \<rparr>"

fun new_accounts :: "address list \<Rightarrow> (address \<rightharpoonup> account_info) \<Rightarrow> error + account list" where
  "new_accounts [] infos = Inr []"
| "new_accounts (a # as) infos =
     (case infos a of
        None \<Rightarrow> Inl (TypeError ''infos[address] is undefined'')
      | Some info \<Rightarrow>
          (case new_accounts as infos of
             Inl e \<Rightarrow> Inl e
           | Inr accs \<Rightarrow> Inr (new_account a info # accs)))"

definition attachInterface_then2 ::
  "address \<times> address list \<times> (address \<rightharpoonup> account_info) \<Rightarrow> world \<Rightarrow> world" where
  "attachInterface_then2 r w =
     (case r of (addr, addresses, infos) \<Rightarrow>
        let w1 = w\<lparr>console := console w @ [ConsoleLog (''gavcoin was found at '' @ addr)]\<rparr>
        in (case new_accounts addresses infos of
              Inl e \<Rightarrow> attachInterface_catch e w1
            | Inr accs \<Rightarrow>
                w1\<lparr>st := (st w1)\<lparr>loading := False, address := Some addr,
                                  contractInstance := Some (Contract addr),
                                  accounts := accs\<rparr>,
                   subscriptions := Suc (subscriptions w1)\<rparr>))"

definition componentDidMount :: "world \<Rightarrow> world" where
  "componentDidMount w = attachInterface w"

section \<open>Sessions\<close>

text \<open>
  After the component is mounted, four things can happen: the user opens or closes an
  action, the notifier announces a block to every subscribed handler, and a pending chain
  gets its answer. An answer of the wrong kind, or for a chain that does not exist, is not
  an event of the program and changes nothing.
\<close>

datatype event =
    Click js_value
  | CloseClick
  | NewBlock BigNumber
  | Settled nat response

definition remove_pending :: "nat \<Rightarrow> world \<Rightarrow> world" where
  "remove_pending i w = w\<lparr>pendings := take i (pendings w) @ drop (Suc i) (pendings w)\<rparr>"

fun continue :: "pending \<Rightarrow> response \<Rightarrow> world \<Rightarrow> world option" where
  "continue AwaitRegistryAddress (RegistryAddress r) w =
     Some (case r of Inl e \<Rightarrow> attachInterface_catch e w
                   | Inr a \<Rightarrow> attachInterface_then1 a w)"
| "continue (AwaitLookup registry) (Lookup ra rb rc) w =
     Some (case promise_all3 ra rb rc of
             Inl e \<Rightarrow> attachInterface_catch e w
           | Inr v \<Rightarrow> attachInterface_then2 v w)"
| "continue (AwaitCounters bn inst) (Counters ra rb rc) w =
     Some (case promise_all3 ra rb rc of
             Inl e \<Rightarrow> onNewBlockNumber_rejected e w
           | Inr v \<Rightarrow> onNewBlockNumber_then1 bn inst v w)"
| "continue (AwaitBalances addrs) (Balances balanceOf getBalance) w =
     Some (case promise_all2 (promise_all (map balanceOf addrs))
                             (promise_all (map getBalance addrs)) of
             Inl e \<Rightarrow> onNewBlockNumber_rejected e w
           | Inr v \<Rightarrow> onNewBlockNumber_then2 v w)"
| "continue p r w = None"

definition settle :: "nat \<Rightarrow> response \<Rightarrow> world \<Rightarrow> world" where
  "settle i r w =
     (if i < length (pendings w)
      then (case continue (pendings w ! i) r (remove_pending i w) of
              None \<Rightarrow> w
            | Some w' \<Rightarrow> w')
      else w)"

fun step :: "world \<Rightarrow> event \<Rightarrow> world" where
  "step w (Click a) = w\<lparr>st := onAction a (st w)\<rparr>"
| "step w CloseClick = w\<lparr>st := onActionClose (st w)\<rparr>"
| "step w (NewBlock bn) = (onNewBlockNumber bn ^^ subscriptions w) w"
| "step w (Settled i r) = settle i r w"

definition session :: "event list \<Rightarrow> world" where
  "session es = foldl step (componentDidMount initial_world) es"

section \<open>The action request state machine of the spec\<close>

text \<open>
  The spec's closed set of action kinds and its two calls, \<open>open(kind)\<close> and \<open>close()\<close>,
  as the surrounding components issue them: an \<open>Actions\<close> button calls \<open>onAction\<close> with the
  kind's name, a dialog calls \<open>onActionClose\<close>. The active request of a state is read off
  the dialog that \<open>renderModals\<close> shows.
\<close>

datatype kind = BuyIn | Refund | Transfer

fun kind_name :: "kind \<Rightarrow> js_value" where
  "kind_name BuyIn = JString ''BuyIn''"
| "kind_name Refund = JString ''Refund''"
| "kind_name Transfer = JString ''Transfer''"

datatype call = Open kind | Close

fun apply_call :: "state \<Rightarrow> call \<Rightarrow> state" where
  "apply_call s (Open k) = onAction (kind_name k) s"
| "apply_call s Close = onActionClose s"

definition active :: "state \<Rightarrow> kind option" where
  "active s =
     (case renderModals s of
        None \<Rightarrow> None
      | Some (ActionBuyIn as p) \<Rightarrow> Some BuyIn
      | Some (ActionRefund as p) \<Rightarrow> Some Refund
      | Some (ActionTransfer as) \<Rightarrow> Some Transfer)"

section \<open>The balance totals of the spec\<close>

text \<open>
  The totals as the spec's balance-conservation property words them: the sum of the raw
  token balances divided by \<open>10^6\<close>, and the sum of the native balances converted from wei.
\<close>

definition spec_gavBalanceTotal :: "BigNumber list \<Rightarrow> BigNumber" where
  "spec_gavBalanceTotal raw = sum_list raw / 10 ^ 6"

definition spec_ethBalanceTotal :: "BigNumber list \<Rightarrow> BigNumber" where
  "spec_ethBalanceTotal raw = sum_list raw / 10 ^ 18"

section \<open>An example session\<close>

text \<open>
  A node with two accounts, one of them without a name. The registry is found, gavcoin is
  found, block 1 arrives, the three counters are read, and then the balances.
\<close>

definition example_infos :: "address \<rightharpoonup> account_info" where
  "example_infos =
     [''0xa'' \<mapsto> \<lparr>account_info.name = Some ''Alice''\<rparr>,
      ''0xb'' \<mapsto> \<lparr>account_info.name = None\<rparr>]"

definition example_startup :: "event list" where
  "example_startup =
     [Settled 0 (RegistryAddress (Inr ''0xreg'')),
      Settled 0 (Lookup (Inr ''0xgav'') (Inr [''0xa'', ''0xb'']) (Inr example_infos))]"

definition example_counters :: "event list" where
  "example_counters = [NewBlock 1, Settled 0 (Counters (Inr 100) (Inr 50) (Inr 2))]"

definition example_balanceOf :: "address \<Rightarrow> error + BigNumber" where
  "example_balanceOf a = (if a = ''0xa'' then Inr 7000000 else Inr 0)"

definition example_getBalance :: "address \<Rightarrow> error + BigNumber" where
  "example_getBalance a =
     (if a = ''0xa'' then Inr 1234567891234567891234 else Inr 1000000000000000000)"

definition example_balances :: "event list" where
  "example_balances = [Settled 0 (Balances example_balanceOf example_getBalance)]"

definition failing_balanceOf :: "address \<Rightarrow> error + BigNumber" where
  "failing_balanceOf a = (if a = ''0xb'' then Inl (Rejected ''timeout'') else Inr 7000000)"

definition example_failing_balances :: "event list" where
  "example_failing_balances = [Settled 0 (Balances failing_balanceOf example_getBalance)]"

definition example_failing_counters :: "event list" where
  "example_failing_counters =
     [NewBlock 1, Settled 0 (Counters (Inl (Rejected ''timeout'')) (Inr 50) (Inr 2))]"

text \<open>
  Two passes that overlap: blocks 1 and 2 are announced before any read is answered, and
  the counters of block 1 arrive first. The chain of block 2 then still waits for its
  counters, and the chain of block 1 for its balances.
\<close>

definition example_overlap :: "event list" where
  "example_overlap =
     [NewBlock 1, NewBlock 2, Settled 0 (Counters (Inr 100) (Inr 50) (Inr 2))]"

section \<open>Phases of a session\<close>

text \<open>
  Three kinds of worlds cover every session. While the component is \<open>starting\<close>, it waits
  for the registry address or for the lookup, nothing is subscribed and the state is the
  initial one (but for the action the user may have set). A startup that \<open>failed\<close> has no
  pending chain and no subscription. A \<open>running\<close> world has published its first state,
  its handler is subscribed once, and every pending chain is a synchronization pass that
  captured the instance of the state, or the addresses of the state's accounts.
\<close>

fun startup_pending :: "pending \<Rightarrow> bool" where
  "startup_pending AwaitRegistryAddress = True"
| "startup_pending (AwaitLookup registry) = True"
| "startup_pending p = False"

fun startup_console :: "pending \<Rightarrow> log_entry list" where
  "startup_console (AwaitLookup (Contract r)) = [ConsoleLog (''the registry was found at '' @ r)]"
| "startup_console p = []"

fun pass_pending :: "state \<Rightarrow> pending \<Rightarrow> bool" where
  "pass_pending s (AwaitCounters bn inst) = (contractInstance s = Some inst)"
| "pass_pending s (AwaitBalances addrs) = (addrs = map account.address (accounts s))"
| "pass_pending s p = False"

definition registry_message :: "log_entry \<Rightarrow> bool" where
  "registry_message l =
     (case l of ConsoleLog m \<Rightarrow> take 26 m = ''the registry was found at ''
              | ConsoleError e \<Rightarrow> False)"

definition untouched :: "world \<Rightarrow> bool" where
  "untouched w \<longleftrightarrow>
     subscriptions w = 0 \<and> st w = initial_state\<lparr>action := action (st w)\<rparr>
     \<and> unhandled w = [] \<and> thrown w = []"

definition starting :: "world \<Rightarrow> bool" where
  "starting w \<longleftrightarrow>
     untouched w \<and> length (pendings w) = 1 \<and> startup_pending (hd (pendings w))
     \<and> console w = startup_console (hd (pendings w))"

definition failed :: "world \<Rightarrow> bool" where
  "failed w \<longleftrightarrow> untouched w \<and> pendings w = []"

definition published :: "world \<Rightarrow> bool" where
  "published w \<longleftrightarrow>
     \<not> loading (st w)
     \<and> (case address (st w) of
           None \<Rightarrow> False
         | Some a \<Rightarrow>
             contractInstance (st w) = Some (Contract a)
             \<and> length (console w) = 2
             \<and> registry_message (console w ! 0)
             \<and> console w ! 1 = ConsoleLog (''gavcoin was found at '' @ a))"

definition running :: "world \<Rightarrow> bool" where
  "running w \<longleftrightarrow>
     subscriptions w = 1 \<and> published w \<and> thrown w = []
     \<and> list_all (pass_pending (st w)) (pendings w)"

text \<open>
  What a startup chain fails with, when the answer it gets makes it fail: a rejected
  read, or a lookup whose account metadata lacks an entry for a listed address.
\<close>

fun startup_failure :: "pending \<Rightarrow> response \<Rightarrow> error option" where
  "startup_failure AwaitRegistryAddress (RegistryAddress r) =
     (case r of Inl e \<Rightarrow> Some e | Inr a \<Rightarrow> None)"
| "startup_failure (AwaitLookup registry) (Lookup ra rb rc) =
     (case promise_all3 ra rb rc of
        Inl e \<Rightarrow> Some e
      | Inr (addr, addresses, infos) \<Rightarrow>
          (case new_accounts addresses infos of Inl e \<Rightarrow> Some e | Inr accs \<Rightarrow> None))"
| "startup_failure p r = None"

section \<open>Properties\<close>

subsection \<open>Action requests\<close>

lemma active_onAction: "active (onAction (kind_name k) s) = Some k"
  by (cases k) (simp_all add: active_def renderModals_def onAction_def)

lemma active_onActionClose: "active (onActionClose s) = None"
  by (simp add: active_def renderModals_def onActionClose_def)

lemma action_apply_calls:
  "action s \<in> {JNull, JString ''BuyIn'', JString ''Refund'', JString ''Transfer''} \<Longrightarrow>
   action (foldl apply_call s cs) \<in> {JNull, JString ''BuyIn'', JString ''Refund'', JString ''Transfer''}"
proof (induction cs arbitrary: s)
  case Nil
  then show ?case by simp
next
  case (Cons c cs)
  have "action (apply_call s c) \<in> {JNull, JString ''BuyIn'', JString ''Refund'', JString ''Transfer''}"
  proof (cases c)
    case (Open k)
    then show ?thesis by (cases k) (simp_all add: onAction_def)
  next
    case Close
    then show ?thesis by (simp add: onActionClose_def)
  qed
  then show ?case using Cons.IH by simp
qed

text \<open>
  C6. Starting with no action open, after any sequence of \<open>open(kind)\<close> and \<open>close()\<close> calls
  the stored action is one of \<open>null\<close>, \<open>'BuyIn'\<close>, \<open>'Refund'\<close>, \<open>'Transfer'\<close>, so exactly one
  of None, BuyIn, Refund, Transfer is active; a sequence that ends with \<open>open(kind)\<close> leaves
  \<open>kind\<close> active whatever was open before, and one that ends with \<open>close()\<close> leaves none
  active, from any state.
\<close>

theorem action_exclusivity:
  "active (foldl apply_call initial_state []) = None
   \<and> active (foldl apply_call s (cs @ [Open k])) = Some k
   \<and> active (foldl apply_call s (cs @ [Close])) = None
   \<and> action (foldl apply_call initial_state cs)
       \<in> {JNull, JString ''BuyIn'', JString ''Refund'', JString ''Transfer''}"
proof -
  have "active initial_state = None"
    by (simp add: active_def renderModals_def initial_state_def)
  moreover have "action initial_state \<in> {JNull, JString ''BuyIn'', JString ''Refund'', JString ''Transfer''}"
    by (simp add: initial_state_def)
  ultimately show ?thesis
    using action_apply_calls [of initial_state cs]
    by (simp add: active_onAction active_onActionClose)
qed

text \<open>
  C10. \<open>onAction\<close> stores whatever value it is given. For a value other than the three
  kind names \<open>renderModals\<close> returns \<open>null\<close>, which is what it returns when no action is
  open; \<open>onActionClose\<close> afterwards stores \<open>null\<close>.
\<close>

theorem unknown_action_renders_nothing:
  "action (onAction v s) = v
   \<and> (v \<notin> {JString ''BuyIn'', JString ''Refund'', JString ''Transfer''} \<longrightarrow>
        renderModals (onAction v s) = None
        \<and> renderModals (onAction v s) = renderModals (s\<lparr>action := JNull\<rparr>))
   \<and> action (onActionClose (onAction v s)) = JNull"
  by (simp add: onAction_def onActionClose_def renderModals_def)

theorem unknown_action_renders_nothing_witness:
  "JString ''Sell'' \<notin> {JString ''BuyIn'', JString ''Refund'', JString ''Transfer''}
   \<and> action (onAction (JString ''Sell'') initial_state) = JString ''Sell''
   \<and> renderModals (onAction (JString ''Sell'') initial_state) = None
   \<and> renderModals (onAction (JString ''Sell'') initial_state)
       = renderModals (initial_state\<lparr>action := JNull\<rparr>)
   \<and> action (onActionClose (onAction (JString ''Sell'') initial_state)) = JNull"
proof -
  have h: "JString ''Sell'' \<notin> {JString ''BuyIn'', JString ''Refund'', JString ''Transfer''}"
    by simp
  from h unknown_action_renders_nothing [of "JString ''Sell''" initial_state]
  show ?thesis by blast
qed

subsection \<open>Promises and the callbacks of a pass\<close>

lemma promise_all_map_Inr:
  "(\<forall>a \<in> set xs. f a = Inr (g a)) \<Longrightarrow> promise_all (map f xs) = Inr (map g xs)"
  by (induction xs) simp_all

lemma foldl_bn_add: "foldl bn_add a xs = a + sum_list xs"
  by (induction xs arbitrary: a) (simp_all add: bn_add_def)

lemma reduce_add_sum_list: "reduce_add xs = sum_list xs"
  by (simp add: reduce_add_def foldl_bn_add)

lemma update_accounts_map:
  "update_accounts as (map (\<lambda>a. e (account.address a)) as) (map (\<lambda>a. g (account.address a)) as)
     = Inr (map (\<lambda>a. update_account a (e (account.address a)) (g (account.address a))) as)"
  by (induction as) simp_all

lemma settle_at:
  "j < length (pendings w) \<Longrightarrow>
   settle j r w = (case continue (pendings w ! j) r (remove_pending j w) of
                     None \<Rightarrow> w | Some w' \<Rightarrow> w')"
  by (simp add: settle_def)

lemma settle_counters:
  assumes "j < length (pendings w)" and "pendings w ! j = AwaitCounters bn inst"
  shows "settle j (Counters (Inr ts) (Inr rm) (Inr pr)) w
    = (remove_pending j w)
        \<lparr>st := (st w)\<lparr>blockNumber := Some bn, totalSupply := Some ts,
                      remaining := Some rm, price := Some pr\<rparr>,
         pendings := pendings (remove_pending j w)
                     @ [AwaitBalances (map account.address (accounts (st w)))]\<rparr>"
  using assms
  by (simp add: settle_at promise_all3_def promise_all2_def onNewBlockNumber_then1_def
      remove_pending_def)

lemma settle_counters_rejected:
  assumes "j < length (pendings w)" and "pendings w ! j = AwaitCounters bn inst"
    and "promise_all3 ra rb rc = Inl err"
  shows "settle j (Counters ra rb rc) w
    = (remove_pending j w)\<lparr>unhandled := unhandled w @ [err]\<rparr>"
  using assms by (simp add: settle_at onNewBlockNumber_rejected_def remove_pending_def)

lemma settle_balances_rejected:
  assumes "j < length (pendings w)" and "pendings w ! j = AwaitBalances addrs"
    and "promise_all2 (promise_all (map balanceOf addrs)) (promise_all (map getBalance addrs))
           = Inl err"
  shows "settle j (Balances balanceOf getBalance) w
    = (remove_pending j w)\<lparr>unhandled := unhandled w @ [err]\<rparr>"
  using assms by (simp add: settle_at onNewBlockNumber_rejected_def remove_pending_def)

subsection \<open>Every session is starting, failed or running\<close>

lemma update_accounts_addresses:
  "update_accounts as ebs gbs = Inr as' \<Longrightarrow> map account.address as' = map account.address as"
proof (induction as ebs gbs arbitrary: as' rule: update_accounts.induct)
  case (2 a as eb ebs gb gbs)
  then show ?case by (auto simp: update_account_def split: sum.splits)
qed simp_all

lemma step_click_st: "\<exists>a. step w (Click v) = w\<lparr>st := (st w)\<lparr>action := a\<rparr>\<rparr>"
  by (auto simp: onAction_def)

lemma step_close_st: "\<exists>a. step w CloseClick = w\<lparr>st := (st w)\<lparr>action := a\<rparr>\<rparr>"
  by (auto simp: onActionClose_def)

lemma untouched_action: "untouched w \<Longrightarrow> untouched (w\<lparr>st := (st w)\<lparr>action := a\<rparr>\<rparr>)"
proof -
  assume u: "untouched w"
  then have "st w = initial_state\<lparr>action := action (st w)\<rparr>" by (simp add: untouched_def)
  then have "(st w)\<lparr>action := a\<rparr> = initial_state\<lparr>action := a\<rparr>"
    by (metis state.update_convs(1) state.surjective state.simps(1))
  then show ?thesis using u by (simp add: untouched_def)
qed

lemma pass_pending_cong:
  "contractInstance s' = contractInstance s \<Longrightarrow> accounts s' = accounts s \<Longrightarrow>
   pass_pending s' = pass_pending s"
proof (rule ext)
  fix p
  assume "contractInstance s' = contractInstance s" and "accounts s' = accounts s"
  then show "pass_pending s' p = pass_pending s p" by (cases p) simp_all
qed

lemma pass_pending_action: "pass_pending (s\<lparr>action := a\<rparr>) = pass_pending s"
  by (rule pass_pending_cong) simp_all

lemma starting_action: "starting w \<Longrightarrow> starting (w\<lparr>st := (st w)\<lparr>action := a\<rparr>\<rparr>)"
  using untouched_action [of w a] by (simp add: starting_def)

lemma failed_action: "failed w \<Longrightarrow> failed (w\<lparr>st := (st w)\<lparr>action := a\<rparr>\<rparr>)"
  using untouched_action [of w a] by (simp add: failed_def)

lemma running_action: "running w \<Longrightarrow> running (w\<lparr>st := (st w)\<lparr>action := a\<rparr>\<rparr>)"
  by (simp add: running_def published_def pass_pending_action split: option.splits)


lemma step_idle:
  assumes "subscriptions w = 0" and "pendings w = []"
  shows "\<exists>a. step w ev = w\<lparr>st := (st w)\<lparr>action := a\<rparr>\<rparr>"
proof (cases ev)
  case (Click v)
  then show ?thesis using step_click_st by simp
next
  case CloseClick
  then show ?thesis using step_close_st by simp
next
  case (NewBlock bn)
  have "w = w\<lparr>st := (st w)\<lparr>action := action (st w)\<rparr>\<rparr>" by simp
  then show ?thesis using NewBlock assms(1) by (metis funpow_0 step.simps(3))
next
  case (Settled i r)
  have "w = w\<lparr>st := (st w)\<lparr>action := action (st w)\<rparr>\<rparr>" by simp
  moreover have "step w ev = w" using Settled assms(2) by (simp add: settle_def)
  ultimately show ?thesis by metis
qed

lemma run_idle:
  assumes "subscriptions w = 0" and "pendings w = []"
  shows "\<exists>a. foldl step w es = w\<lparr>st := (st w)\<lparr>action := a\<rparr>\<rparr>"
  using assms
proof (induction es arbitrary: w)
  case Nil
  have "w = w\<lparr>st := (st w)\<lparr>action := action (st w)\<rparr>\<rparr>" by simp
  then show ?case by (metis foldl_Nil)
next
  case (Cons ev es)
  from step_idle [OF Cons.prems] obtain a where a: "step w ev = w\<lparr>st := (st w)\<lparr>action := a\<rparr>\<rparr>"
    by blast
  let ?w = "w\<lparr>st := (st w)\<lparr>action := a\<rparr>\<rparr>"
  have "subscriptions ?w = 0" and "pendings ?w = []" using Cons.prems by simp_all
  from Cons.IH [OF this] obtain b where "foldl step ?w es = ?w\<lparr>st := (st ?w)\<lparr>action := b\<rparr>\<rparr>"
    by blast
  then have "foldl step w (ev # es) = w\<lparr>st := (st w)\<lparr>action := b\<rparr>\<rparr>"
    using a by simp
  then show ?case by blast
qed

lemma step_failed: "failed w \<Longrightarrow> failed (step w ev)"
proof -
  assume f: "failed w"
  then have "subscriptions w = 0" and "pendings w = []" by (simp_all add: failed_def untouched_def)
  from step_idle [OF this] obtain a where "step w ev = w\<lparr>st := (st w)\<lparr>action := a\<rparr>\<rparr>" by blast
  then show ?thesis using failed_action [OF f] by simp
qed

lemma settle_single:
  "pendings w = [p] \<Longrightarrow>
   settle i r w = (if i = 0 then (case continue p r (w\<lparr>pendings := []\<rparr>) of None \<Rightarrow> w | Some w' \<Rightarrow> w')
                   else w)"
  by (simp add: settle_def remove_pending_def)

lemma continue_starting:
  assumes "untouched w" and "startup_pending p" and "console w = startup_console p"
    and "continue p r (w\<lparr>pendings := []\<rparr>) = Some w'"
  shows "starting w' \<or> failed w' \<or> running w'"
proof (cases p)
  case AwaitRegistryAddress
  show ?thesis
  proof (cases r)
    case (RegistryAddress ra)
    show ?thesis
    proof (cases ra)
      case (Inl e)
      then have "w' = attachInterface_catch e (w\<lparr>pendings := []\<rparr>)"
        using assms(4) AwaitRegistryAddress RegistryAddress by simp
      then have "failed w'"
        using assms(1) by (simp add: failed_def untouched_def attachInterface_catch_def)
      then show ?thesis by simp
    next
      case (Inr a)
      then have "w' = attachInterface_then1 a (w\<lparr>pendings := []\<rparr>)"
        using assms(4) AwaitRegistryAddress RegistryAddress by simp
      then have "starting w'"
        using assms(1,3) AwaitRegistryAddress
        by (simp add: starting_def untouched_def attachInterface_then1_def)
      then show ?thesis by simp
    qed
  qed (use assms(4) AwaitRegistryAddress in simp_all)
next
  case (AwaitLookup c)
  obtain r0 where c: "c = Contract r0" by (cases c)
  show ?thesis
  proof (cases r)
    case (Lookup ra rb rc)
    show ?thesis
    proof (cases "promise_all3 ra rb rc")
      case (Inl e)
      then have "w' = attachInterface_catch e (w\<lparr>pendings := []\<rparr>)"
        using assms(4) AwaitLookup Lookup by simp
      then have "failed w'"
        using assms(1) by (simp add: failed_def untouched_def attachInterface_catch_def)
      then show ?thesis by simp
    next
      case (Inr v)
      obtain addr addresses infos where v: "v = (addr, addresses, infos)" by (cases v)
      have w': "w' = attachInterface_then2 (addr, addresses, infos) (w\<lparr>pendings := []\<rparr>)"
        using assms(4) AwaitLookup Lookup Inr v by simp
      show ?thesis
      proof (cases "new_accounts addresses infos")
        case (Inl e)
        then have "failed w'"
          using assms(1) w'
          by (simp add: failed_def untouched_def attachInterface_catch_def attachInterface_then2_def)
        then show ?thesis by simp
      next
        case (Inr accs)
        then have "running w'"
          using assms(1,3) w' AwaitLookup c
          by (simp add: running_def published_def untouched_def attachInterface_then2_def
              registry_message_def)
        then show ?thesis by simp
      qed
    qed
  qed (use assms(4) AwaitLookup in simp_all)
qed (use assms(2) in simp_all)

lemma step_starting:
  assumes "starting w"
  shows "starting (step w ev) \<or> failed (step w ev) \<or> running (step w ev)"
proof (cases ev)
  case (Click v)
  then show ?thesis using starting_action [OF assms] by (simp add: onAction_def)
next
  case CloseClick
  then show ?thesis using starting_action [OF assms] by (simp add: onActionClose_def)
next
  case (NewBlock bn)
  then show ?thesis using assms by (simp add: starting_def untouched_def)
next
  case (Settled i r)
  from assms obtain p where p: "pendings w = [p]"
    by (cases "pendings w") (simp_all add: starting_def)
  have u: "untouched w" and sp: "startup_pending p" and co: "console w = startup_console p"
    using assms p by (simp_all add: starting_def)
  show ?thesis
  proof (cases "i = 0")
    case True
    show ?thesis
    proof (cases "continue p r (w\<lparr>pendings := []\<rparr>)")
      case None
      then show ?thesis using Settled True p assms by (simp add: settle_single)
    next
      case (Some w')
      then have "step w ev = w'" using Settled True p by (simp add: settle_single)
      then show ?thesis using continue_starting [OF u sp co Some] by simp
    qed
  next
    case False
    then show ?thesis using Settled p assms by (simp add: settle_single)
  qed
qed

lemma pass_pending_addresses:
  "contractInstance s' = contractInstance s \<Longrightarrow>
   map account.address (accounts s') = map account.address (accounts s) \<Longrightarrow>
   pass_pending s' = pass_pending s"
proof (rule ext)
  fix p
  assume "contractInstance s' = contractInstance s"
    and "map account.address (accounts s') = map account.address (accounts s)"
  then show "pass_pending s' p = pass_pending s p" by (cases p) simp_all
qed

lemma running_unhandled: "running w \<Longrightarrow> running (w\<lparr>unhandled := u\<rparr>)"
  by (simp add: running_def published_def split: option.splits)

lemma running_remove_pending: "running w \<Longrightarrow> running (remove_pending i w)"
  by (auto simp: running_def published_def remove_pending_def list_all_iff
      dest: in_set_takeD in_set_dropD split: option.splits)

lemma running_then1:
  assumes "running w"
  shows "running (onNewBlockNumber_then1 bn inst v w)"
proof -
  obtain ts rm pr where v: "v = (ts, rm, pr)" by (cases v)
  let ?s = "(st w)\<lparr>blockNumber := Some bn, totalSupply := Some ts,
                     remaining := Some rm, price := Some pr\<rparr>"
  have pp: "pass_pending ?s = pass_pending (st w)"
    by (rule pass_pending_addresses) simp_all
  have w': "onNewBlockNumber_then1 bn inst v w
      = w\<lparr>st := ?s, pendings := pendings w @ [AwaitBalances (map account.address (accounts (st w)))]\<rparr>"
    by (simp add: onNewBlockNumber_then1_def v)
  have "list_all (pass_pending ?s) (pendings w @ [AwaitBalances (map account.address (accounts (st w)))])"
    using assms by (simp add: pp running_def)
  moreover have "published (w\<lparr>st := ?s, pendings := pendings w @ [AwaitBalances (map account.address (accounts (st w)))]\<rparr>)"
    using assms by (simp add: running_def published_def split: option.splits)
  ultimately show ?thesis using assms unfolding w' by (simp add: running_def)
qed

lemma running_then2:
  assumes "running w"
  shows "running (onNewBlockNumber_then2 v w)"
proof -
  obtain gavs eths where v: "v = (gavs, eths)" by (cases v)
  show ?thesis
  proof (cases "update_accounts (accounts (st w)) eths gavs")
    case (Inl e)
    then show ?thesis using running_unhandled [OF assms]
      by (simp add: onNewBlockNumber_then2_def v)
  next
    case (Inr as')
    let ?s = "(st w)\<lparr>ethBalance := reduce_add eths, gavBalance := reduce_add gavs, accounts := as'\<rparr>"
    have pp: "pass_pending ?s = pass_pending (st w)"
      by (rule pass_pending_addresses) (simp_all add: update_accounts_addresses [OF Inr])
    have w': "onNewBlockNumber_then2 v w = w\<lparr>st := ?s\<rparr>"
      by (simp add: onNewBlockNumber_then2_def v Inr)
    have "list_all (pass_pending ?s) (pendings w)"
      using assms by (simp add: pp running_def)
    moreover have "published (w\<lparr>st := ?s\<rparr>)"
      using assms by (simp add: running_def published_def split: option.splits)
    ultimately show ?thesis using assms unfolding w' by (simp add: running_def)
  qed
qed

lemma continue_running:
  assumes "running w" and "pass_pending s p" and "continue p r w = Some w'"
  shows "running w'"
proof (cases p)
  case (AwaitCounters bn inst)
  show ?thesis
  proof (cases r)
    case (Counters ra rb rc)
    then have "w' = (case promise_all3 ra rb rc of
                       Inl e \<Rightarrow> onNewBlockNumber_rejected e w
                     | Inr v \<Rightarrow> onNewBlockNumber_then1 bn inst v w)"
      using assms(3) AwaitCounters by simp
    then show ?thesis
      using running_then1 [OF assms(1)] running_unhandled [OF assms(1)]
      by (simp add: onNewBlockNumber_rejected_def split: sum.splits)
  qed (use assms(3) AwaitCounters in simp_all)
next
  case (AwaitBalances addrs)
  show ?thesis
  proof (cases r)
    case (Balances balanceOf getBalance)
    then have "w' = (case promise_all2 (promise_all (map balanceOf addrs))
                                        (promise_all (map getBalance addrs)) of
                       Inl e \<Rightarrow> onNewBlockNumber_rejected e w
                     | Inr v \<Rightarrow> onNewBlockNumber_then2 v w)"
      using assms(3) AwaitBalances by simp
    then show ?thesis
      using running_then2 [OF assms(1)] running_unhandled [OF assms(1)]
      by (simp add: onNewBlockNumber_rejected_def split: sum.splits)
  qed (use assms(3) AwaitBalances in simp_all)
qed (use assms(2) in simp_all)

lemma running_block:
  assumes "running w"
  shows "running (step w (NewBlock bn))"
proof -
  from assms obtain a where a: "contractInstance (st w) = Some (Contract a)"
    by (auto simp: running_def published_def split: option.splits)
  have "step w (NewBlock bn) = w\<lparr>pendings := pendings w @ [AwaitCounters bn (Contract a)]\<rparr>"
    using assms a by (simp add: running_def onNewBlockNumber_def)
  then show ?thesis using assms a by (simp add: running_def published_def split: option.splits)
qed

lemma step_running:
  assumes "running w"
  shows "running (step w ev)"
proof (cases ev)
  case (Click v)
  then show ?thesis using running_action [OF assms] by (simp add: onAction_def)
next
  case CloseClick
  then show ?thesis using running_action [OF assms] by (simp add: onActionClose_def)
next
  case (NewBlock bn)
  then show ?thesis using running_block [OF assms] by simp
next
  case (Settled i r)
  show ?thesis
  proof (cases "i < length (pendings w)")
    case True
    then have pp: "pass_pending (st w) (pendings w ! i)"
      using assms by (simp add: running_def list_all_length)
    show ?thesis
    proof (cases "continue (pendings w ! i) r (remove_pending i w)")
      case None
      then show ?thesis using Settled True assms by (simp add: settle_def)
    next
      case (Some w')
      then have "step w ev = w'" using Settled True by (simp add: settle_def)
      then show ?thesis
        using continue_running [OF running_remove_pending [OF assms] pp Some] by simp
    qed
  next
    case False
    then show ?thesis using Settled assms by (simp add: settle_def)
  qed
qed

lemma step_phase:
  "starting w \<or> failed w \<or> running w \<Longrightarrow>
   starting (step w ev) \<or> failed (step w ev) \<or> running (step w ev)"
  using step_starting step_failed step_running by blast

lemma run_phase:
  "starting w \<or> failed w \<or> running w \<Longrightarrow>
   starting (foldl step w es) \<or> failed (foldl step w es) \<or> running (foldl step w es)"
proof (induction es arbitrary: w)
  case Nil
  then show ?case by simp
next
  case (Cons ev es)
  from step_phase [OF Cons.prems] Cons.IH show ?case by simp
qed

lemma starting_mounted: "starting (componentDidMount initial_world)"
  by (simp add: starting_def untouched_def componentDidMount_def attachInterface_def
      initial_world_def initial_state_def)

lemma session_phase:
  "starting (session es) \<or> failed (session es) \<or> running (session es)"
  unfolding session_def using run_phase starting_mounted by blast

subsection \<open>What one pass commits\<close>

lemma balances_settled_at:
  assumes "j < length (pendings w)"
    and "pendings w ! j = AwaitBalances (map account.address (accounts (st w)))"
    and "\<forall>a \<in> set (accounts (st w)).
           balanceOf (account.address a) = Inr (g (account.address a))
           \<and> getBalance (account.address a) = Inr (e (account.address a))"
  shows "settle j (Balances balanceOf getBalance) w
    = (remove_pending j w)
        \<lparr>st := (st w)\<lparr>ethBalance := (\<Sum>a\<leftarrow>accounts (st w). e (account.address a)),
                      gavBalance := (\<Sum>a\<leftarrow>accounts (st w). g (account.address a)),
                      accounts := map (\<lambda>a. update_account a (e (account.address a))
                                                            (g (account.address a)))
                                      (accounts (st w))\<rparr>\<rparr>"
proof -
  let ?addrs = "map account.address (accounts (st w))"
  let ?w = "remove_pending j w"
  have g: "promise_all (map balanceOf ?addrs) = Inr (map g ?addrs)"
    by (rule promise_all_map_Inr) (use assms(3) in auto)
  have e: "promise_all (map getBalance ?addrs) = Inr (map e ?addrs)"
    by (rule promise_all_map_Inr) (use assms(3) in auto)
  have s: "st ?w = st w"
    by (simp add: remove_pending_def)
  have "settle j (Balances balanceOf getBalance) w
      = onNewBlockNumber_then2 (map g ?addrs, map e ?addrs) ?w"
    using assms(1,2) by (simp add: settle_at g e promise_all2_def del: map_map)
  also have "\<dots> = ?w\<lparr>st := (st w)\<lparr>ethBalance := (\<Sum>a\<leftarrow>accounts (st w). e (account.address a)),
                      gavBalance := (\<Sum>a\<leftarrow>accounts (st w). g (account.address a)),
                      accounts := map (\<lambda>a. update_account a (e (account.address a))
                                                            (g (account.address a)))
                                      (accounts (st w))\<rparr>\<rparr>"
    by (simp add: onNewBlockNumber_then2_def s map_map comp_def update_accounts_map
        reduce_add_sum_list)
  finally show ?thesis .
qed

lemma session_snoc: "session (es @ [ev]) = step (session es) ev"
  by (simp add: session_def)

lemma session_balances_pending:
  assumes "j < length (pendings (session es))"
    and "pendings (session es) ! j = AwaitBalances addrs"
  shows "addrs = map account.address (accounts (st (session es)))"
proof -
  have "\<not> failed (session es)"
    using assms(1) by (auto simp: failed_def)
  moreover have "\<not> starting (session es)"
  proof
    assume s: "starting (session es)"
    then obtain p where p: "pendings (session es) = [p]"
      by (cases "pendings (session es)") (simp_all add: starting_def)
    then have "p = AwaitBalances addrs" using assms by simp
    then show False using s p by (simp add: starting_def)
  qed
  ultimately have "running (session es)"
    using session_phase [of es] by blast
  then have "pass_pending (st (session es)) (pendings (session es) ! j)"
    using assms(1) by (simp add: running_def list_all_length)
  then show ?thesis using assms(2) by simp
qed

lemma promise_all_length: "promise_all rs = Inr vs \<Longrightarrow> length vs = length rs"
proof (induction rs arbitrary: vs)
  case Nil
  then show ?case by simp
next
  case (Cons r rs)
  then show ?case by (cases r) (auto split: sum.splits)
qed

lemma update_accounts_total:
  "length ebs = length as \<Longrightarrow> length gbs = length as \<Longrightarrow>
   \<exists>as'. update_accounts as ebs gbs = Inr as'"
proof (induction as ebs gbs rule: update_accounts.induct)
  case (2 a as eb ebs gb gbs)
  then show ?case by auto
qed simp_all

text \<open>
  In a session the callback of \<open>accounts.map\<close> never reads past the end of a balance
  array: the arrays hold one balance for each account of the state.
\<close>

lemma session_balance_arrays:
  assumes "j < length (pendings (session es))"
    and "pendings (session es) ! j = AwaitBalances addrs"
    and "promise_all (map balanceOf addrs) = Inr gbs"
    and "promise_all (map getBalance addrs) = Inr ebs"
  shows "\<exists>as'. update_accounts (accounts (st (session es))) ebs gbs = Inr as'"
proof -
  have "addrs = map account.address (accounts (st (session es)))"
    by (rule session_balances_pending [OF assms(1,2)])
  then have "length addrs = length (accounts (st (session es)))"
    by simp
  moreover have "length gbs = length addrs" and "length ebs = length addrs"
    using promise_all_length [OF assms(3)] promise_all_length [OF assms(4)] by simp_all
  ultimately show ?thesis
    by (simp add: update_accounts_total)
qed

lemma session_pass_running:
  assumes "j < length (pendings (session es))"
    and "\<not> startup_pending (pendings (session es) ! j)"
  shows "running (session es)"
proof -
  have "\<not> failed (session es)"
    using assms(1) by (auto simp: failed_def)
  moreover have "\<not> starting (session es)"
  proof
    assume s: "starting (session es)"
    then obtain p where p: "pendings (session es) = [p]"
      by (cases "pendings (session es)") (simp_all add: starting_def)
    then have "pendings (session es) ! j = p"
      using assms(1) by simp
    then show False using s p assms(2) by (simp add: starting_def)
  qed
  ultimately show ?thesis
    using session_phase [of es] by blast
qed

lemma rejected_pass_world:
  assumes "running w"
    and "w' = (remove_pending j w)\<lparr>unhandled := unhandled w @ [err]\<rparr>"
  shows "st w' = st w \<and> console w' = console w \<and> unhandled w' = unhandled w @ [err]
       \<and> subscriptions w' = 1
       \<and> pendings w' = take j (pendings w) @ drop (Suc j) (pendings w)
       \<and> (\<exists>a. contractInstance (st w') = Some (Contract a)
              \<and> step w' (NewBlock bn')
                  = w'\<lparr>pendings := pendings w' @ [AwaitCounters bn' (Contract a)]\<rparr>)"
proof -
  from assms(1) obtain a where a: "contractInstance (st w) = Some (Contract a)"
    by (auto simp: running_def published_def split: option.splits)
  have s: "subscriptions w = 1"
    using assms(1) by (simp add: running_def)
  have "step w' (NewBlock bn') = w'\<lparr>pendings := pendings w' @ [AwaitCounters bn' (Contract a)]\<rparr>"
    using a s by (simp add: assms(2) remove_pending_def onNewBlockNumber_def)
  moreover have "contractInstance (st w') = Some (Contract a)"
    using a by (simp add: assms(2) remove_pending_def)
  ultimately show ?thesis
    using s by (simp add: assms(2) remove_pending_def)
qed

text \<open>
  C1, as the code has it. A pass commits in two separate steps, whatever other passes
  and user actions come in between. When its three counter reads have resolved, the
  first \<open>setState\<close> replaces \<open>blockNumber\<close>, \<open>totalSupply\<close>, \<open>remaining\<close> and \<open>price\<close> by
  the values of the pass and leaves every other field of the state as it was at that
  moment; the chain then waits for the balances of the accounts. When all balance reads
  have resolved, the second \<open>setState\<close> replaces \<open>ethBalance\<close>, \<open>gavBalance\<close> and
  \<open>accounts\<close> together and leaves every other field, the counters included, as it was at
  that moment. So right after the first commit of a pass the state shows the counters
  of that pass beside the totals and accounts of before that commit.
\<close>

theorem pass_commits_in_two_steps:
  "(j < length (pendings (session es))
      \<and> pendings (session es) ! j = AwaitCounters bn inst \<longrightarrow>
      st (session (es @ [Settled j (Counters (Inr ts) (Inr rm) (Inr pr))]))
        = (st (session es))\<lparr>blockNumber := Some bn, totalSupply := Some ts,
                              remaining := Some rm, price := Some pr\<rparr>
      \<and> pendings (session (es @ [Settled j (Counters (Inr ts) (Inr rm) (Inr pr))]))
        = take j (pendings (session es)) @ drop (Suc j) (pendings (session es))
          @ [AwaitBalances (map account.address (accounts (st (session es))))])
   \<and> (k < length (pendings (session es))
      \<and> pendings (session es) ! k = AwaitBalances addrs
      \<and> (\<forall>a \<in> set addrs. balanceOf a = Inr (g a) \<and> getBalance a = Inr (e a)) \<longrightarrow>
      st (session (es @ [Settled k (Balances balanceOf getBalance)]))
        = (st (session es))
            \<lparr>ethBalance := sum_list (map e addrs),
              gavBalance := sum_list (map g addrs),
              accounts := map (\<lambda>a. update_account a (e (account.address a))
                                                    (g (account.address a)))
                              (accounts (st (session es)))\<rparr>
      \<and> pendings (session (es @ [Settled k (Balances balanceOf getBalance)]))
        = take k (pendings (session es)) @ drop (Suc k) (pendings (session es)))"
proof (intro conjI impI)
  assume h: "j < length (pendings (session es))
      \<and> pendings (session es) ! j = AwaitCounters bn inst"
  then have s: "session (es @ [Settled j (Counters (Inr ts) (Inr rm) (Inr pr))])
      = (remove_pending j (session es))
          \<lparr>st := (st (session es))\<lparr>blockNumber := Some bn, totalSupply := Some ts,
                                    remaining := Some rm, price := Some pr\<rparr>,
           pendings := pendings (remove_pending j (session es))
                       @ [AwaitBalances (map account.address (accounts (st (session es))))]\<rparr>"
    by (simp add: session_snoc settle_counters)
  show "st (session (es @ [Settled j (Counters (Inr ts) (Inr rm) (Inr pr))]))
        = (st (session es))\<lparr>blockNumber := Some bn, totalSupply := Some ts,
                              remaining := Some rm, price := Some pr\<rparr>"
    by (simp add: s)
  show "pendings (session (es @ [Settled j (Counters (Inr ts) (Inr rm) (Inr pr))]))
        = take j (pendings (session es)) @ drop (Suc j) (pendings (session es))
          @ [AwaitBalances (map account.address (accounts (st (session es))))]"
    by (simp add: s remove_pending_def)
next
  assume h: "k < length (pendings (session es))
      \<and> pendings (session es) ! k = AwaitBalances addrs
      \<and> (\<forall>a \<in> set addrs. balanceOf a = Inr (g a) \<and> getBalance a = Inr (e a))"
  then have len: "k < length (pendings (session es))"
    and p: "pendings (session es) ! k = AwaitBalances addrs"
    and ok: "\<forall>a \<in> set addrs. balanceOf a = Inr (g a) \<and> getBalance a = Inr (e a)"
    by simp_all
  have addrs: "addrs = map account.address (accounts (st (session es)))"
    by (rule session_balances_pending [OF len p])
  have nth: "pendings (session es) ! k
      = AwaitBalances (map account.address (accounts (st (session es))))"
    using p addrs by simp
  have reads: "\<forall>a \<in> set (accounts (st (session es))).
           balanceOf (account.address a) = Inr (g (account.address a))
           \<and> getBalance (account.address a) = Inr (e (account.address a))"
    using ok addrs by simp
  have g: "sum_list (map g addrs) = (\<Sum>a\<leftarrow>accounts (st (session es)). g (account.address a))"
    by (simp add: addrs comp_def)
  have e: "sum_list (map e addrs) = (\<Sum>a\<leftarrow>accounts (st (session es)). e (account.address a))"
    by (simp add: addrs comp_def)
  have s: "session (es @ [Settled k (Balances balanceOf getBalance)])
      = (remove_pending k (session es))
          \<lparr>st := (st (session es))
                  \<lparr>ethBalance := (\<Sum>a\<leftarrow>accounts (st (session es)). e (account.address a)),
                    gavBalance := (\<Sum>a\<leftarrow>accounts (st (session es)). g (account.address a)),
                    accounts := map (\<lambda>a. update_account a (e (account.address a))
                                                          (g (account.address a)))
                                    (accounts (st (session es)))\<rparr>\<rparr>"
    unfolding session_snoc step.simps by (rule balances_settled_at [OF len nth reads])
  show "st (session (es @ [Settled k (Balances balanceOf getBalance)]))
        = (st (session es))
            \<lparr>ethBalance := sum_list (map e addrs),
              gavBalance := sum_list (map g addrs),
              accounts := map (\<lambda>a. update_account a (e (account.address a))
                                                    (g (account.address a)))
                              (accounts (st (session es)))\<rparr>"
    unfolding g e by (simp add: s)
  show "pendings (session (es @ [Settled k (Balances balanceOf getBalance)]))
        = take k (pendings (session es)) @ drop (Suc k) (pendings (session es))"
    by (simp add: s remove_pending_def)
qed

theorem pass_commits_in_two_steps_witness:
  "pendings (session (example_startup @ example_overlap))
     = [AwaitCounters 2 (Contract ''0xgav''), AwaitBalances [''0xa'', ''0xb'']]
   \<and> example_balanceOf ''0xa'' = Inr 7000000
   \<and> example_balanceOf ''0xb'' = Inr 0
   \<and> example_getBalance ''0xa'' = Inr 1234567891234567891234
   \<and> example_getBalance ''0xb'' = Inr 1000000000000000000
   \<and> blockNumber (st (session (example_startup @ example_overlap))) = Some 1
   \<and> blockNumber (st (session ((example_startup @ example_overlap)
         @ [Settled 0 (Counters (Inr 200) (Inr 60) (Inr 3))]))) = Some 2
   \<and> state.gavBalance (st (session ((example_startup @ example_overlap)
         @ [Settled 0 (Counters (Inr 200) (Inr 60) (Inr 3))])))
       = state.gavBalance (st (session (example_startup @ example_overlap)))
   \<and> state.gavBalance (st (session ((example_startup @ example_overlap)
         @ [Settled 1 (Balances example_balanceOf example_getBalance)]))) = 7000000
   \<and> blockNumber (st (session ((example_startup @ example_overlap)
         @ [Settled 1 (Balances example_balanceOf example_getBalance)]))) = Some 1"
proof -
  have p: "pendings (session (example_startup @ example_overlap))
     = [AwaitCounters 2 (Contract ''0xgav''), AwaitBalances [''0xa'', ''0xb'']]"
    by code_simp
  have b: "blockNumber (st (session (example_startup @ example_overlap))) = Some 1"
    by code_simp
  have r: "example_balanceOf ''0xa'' = Inr 7000000" "example_balanceOf ''0xb'' = Inr 0"
    "example_getBalance ''0xa'' = Inr 1234567891234567891234"
    "example_getBalance ''0xb'' = Inr 1000000000000000000"
    by (simp_all add: example_balanceOf_def example_getBalance_def)
  have h1: "0 < length (pendings (session (example_startup @ example_overlap)))
      \<and> pendings (session (example_startup @ example_overlap)) ! 0
          = AwaitCounters 2 (Contract ''0xgav'')"
    by (simp add: p)
  have h2: "1 < length (pendings (session (example_startup @ example_overlap)))
      \<and> pendings (session (example_startup @ example_overlap)) ! 1
          = AwaitBalances [''0xa'', ''0xb'']
      \<and> (\<forall>a \<in> set [''0xa'', ''0xb''].
            example_balanceOf a = Inr (if a = ''0xa'' then 7000000 else 0)
            \<and> example_getBalance a
                = Inr (if a = ''0xa'' then 1234567891234567891234 else 1000000000000000000))"
    by (simp add: p example_balanceOf_def example_getBalance_def)
  note t = pass_commits_in_two_steps [of 0 "example_startup @ example_overlap" 2
      "Contract ''0xgav''" 200 60 3 1 "[''0xa'', ''0xb'']" example_balanceOf
      "\<lambda>a. if a = ''0xa'' then 7000000 else 0" example_getBalance
      "\<lambda>a. if a = ''0xa'' then 1234567891234567891234 else 1000000000000000000"]
  from t h1 have c1: "st (session ((example_startup @ example_overlap)
         @ [Settled 0 (Counters (Inr 200) (Inr 60) (Inr 3))]))
      = (st (session (example_startup @ example_overlap)))
          \<lparr>blockNumber := Some 2, totalSupply := Some 200,
            remaining := Some 60, price := Some 3\<rparr>"
    by blast
  from t h2 have c2: "st (session ((example_startup @ example_overlap)
         @ [Settled 1 (Balances example_balanceOf example_getBalance)]))
      = (st (session (example_startup @ example_overlap)))
          \<lparr>ethBalance := sum_list (map (\<lambda>a. if a = ''0xa'' then 1234567891234567891234
                                              else 1000000000000000000) [''0xa'', ''0xb'']),
            gavBalance := sum_list (map (\<lambda>a. if a = ''0xa'' then 7000000 else 0)
                                        [''0xa'', ''0xb'']),
            accounts := map (\<lambda>a. update_account a
                               (if account.address a = ''0xa'' then 1234567891234567891234
                                else 1000000000000000000)
                               (if account.address a = ''0xa'' then 7000000 else 0))
                            (accounts (st (session (example_startup @ example_overlap))))\<rparr>"
    by blast
  show ?thesis
    unfolding c1 c2 using p b r by simp
qed

text \<open>
  The claim C1 as the spec states it fails: in the example session, after the counters of
  block 1 have been read and before its balances arrive, the state shows the pass's total
  supply and not yet the token total that the same pass commits afterwards.
\<close>

theorem atomic_commit_counterexample:
  "totalSupply (st (session (example_startup @ example_counters))) = Some 100
   \<and> state.gavBalance (st (session (example_startup @ example_counters))) \<noteq> 7000000
   \<and> pendings (session (example_startup @ example_counters)) = [AwaitBalances [''0xa'', ''0xb'']]
   \<and> totalSupply (st (session (example_startup @ example_counters @ example_balances))) = Some 100
   \<and> state.gavBalance (st (session (example_startup @ example_counters @ example_balances)))
       = 7000000"
  by code_simp

subsection \<open>The balance totals\<close>

text \<open>
  C2, as the code has it. When the balance reads of a pass have resolved, the state's
  \<open>gavBalance\<close> is the exact sum of the raw token balances of the accounts, not divided by
  \<open>10^6\<close>, and its \<open>ethBalance\<close> is the exact sum of their native balances in wei, not
  converted; the reads are those for the addresses of all accounts of the state.
\<close>

theorem totals_are_raw_sums:
  assumes "j < length (pendings (session es))"
    and "pendings (session es) ! j = AwaitBalances addrs"
    and "\<forall>a \<in> set addrs. balanceOf a = Inr (g a) \<and> getBalance a = Inr (e a)"
  shows "state.gavBalance (st (session (es @ [Settled j (Balances balanceOf getBalance)])))
           = sum_list (map g addrs)
       \<and> state.ethBalance (st (session (es @ [Settled j (Balances balanceOf getBalance)])))
           = sum_list (map e addrs)
       \<and> addrs = map account.address (accounts (st (session es)))"
proof -
  have addrs: "addrs = map account.address (accounts (st (session es)))"
    by (rule session_balances_pending [OF assms(1,2)])
  have nth: "pendings (session es) ! j
      = AwaitBalances (map account.address (accounts (st (session es))))"
    using assms(2) addrs by simp
  have reads: "\<forall>a \<in> set (accounts (st (session es))).
           balanceOf (account.address a) = Inr (g (account.address a))
           \<and> getBalance (account.address a) = Inr (e (account.address a))"
    using assms(3) addrs by simp
  have g: "sum_list (map g addrs) = (\<Sum>a\<leftarrow>accounts (st (session es)). g (account.address a))"
    by (simp add: addrs comp_def)
  have e: "sum_list (map e addrs) = (\<Sum>a\<leftarrow>accounts (st (session es)). e (account.address a))"
    by (simp add: addrs comp_def)
  show ?thesis
    unfolding session_snoc step.simps balances_settled_at [OF assms(1) nth reads] g e
    using addrs by simp
qed

theorem totals_are_raw_sums_witness:
  "0 < length (pendings (session (example_startup @ example_counters)))
   \<and> pendings (session (example_startup @ example_counters)) ! 0 = AwaitBalances [''0xa'', ''0xb'']
   \<and> example_balanceOf ''0xa'' = Inr 7000000
   \<and> example_balanceOf ''0xb'' = Inr 0
   \<and> example_getBalance ''0xa'' = Inr 1234567891234567891234
   \<and> example_getBalance ''0xb'' = Inr 1000000000000000000
   \<and> state.gavBalance (st (session ((example_startup @ example_counters)
         @ [Settled 0 (Balances example_balanceOf example_getBalance)]))) = 7000000
   \<and> state.ethBalance (st (session ((example_startup @ example_counters)
         @ [Settled 0 (Balances example_balanceOf example_getBalance)]))) = 1235567891234567891234"
proof -
  have h1: "0 < length (pendings (session (example_startup @ example_counters)))"
    by code_simp
  have h2: "pendings (session (example_startup @ example_counters)) ! 0
      = AwaitBalances [''0xa'', ''0xb'']"
    by code_simp
  have h3: "\<forall>a \<in> set [''0xa'', ''0xb''].
         example_balanceOf a = Inr (if a = ''0xa'' then 7000000 else 0)
         \<and> example_getBalance a
             = Inr (if a = ''0xa'' then 1234567891234567891234 else 1000000000000000000)"
    by (simp add: example_balanceOf_def example_getBalance_def)
  have r: "example_balanceOf ''0xa'' = Inr 7000000" "example_balanceOf ''0xb'' = Inr 0"
    "example_getBalance ''0xa'' = Inr 1234567891234567891234"
    "example_getBalance ''0xb'' = Inr 1000000000000000000"
    by (simp_all add: example_balanceOf_def example_getBalance_def)
  from totals_are_raw_sums [OF h1 h2 h3] h1 h2 r
  show ?thesis by simp
qed

text \<open>
  The claim C2 as the spec states it fails: in the example session the committed totals
  are the raw sums, which differ from the sums divided by \<open>10^6\<close> and by \<open>10^18\<close>.
\<close>

theorem balance_totals_counterexample:
  "state.gavBalance (st (session (example_startup @ example_counters @ example_balances)))
     \<noteq> spec_gavBalanceTotal [7000000, 0]
   \<and> state.ethBalance (st (session (example_startup @ example_counters @ example_balances)))
     \<noteq> spec_ethBalanceTotal [1234567891234567891234, 1000000000000000000]
   \<and> state.gavBalance (st (session (example_startup @ example_counters @ example_balances)))
     = sum_list [7000000, 0]"
  by code_simp

subsection \<open>A pass whose read fails\<close>

text \<open>
  C3, as the code has it, whatever other passes and user actions come in between. When
  a counter read of a pass fails, the pass commits nothing: its rejection changes no
  field of the state. When the counter reads succeed, the pass commits \<open>blockNumber\<close>,
  \<open>totalSupply\<close>, \<open>remaining\<close> and \<open>price\<close> and then waits for the balances; when a
  balance read fails, its rejection changes no field of the state either, so that first
  commit is not undone and the pass never writes \<open>ethBalance\<close>, \<open>gavBalance\<close> or
  \<open>accounts\<close>. After either failure the rejection is left unhandled, the console is as it
  was, the handler is still subscribed, and the next block notification starts a fresh
  pass.
\<close>

theorem failed_read_commits_nothing:
  "(j < length (pendings (session es))
      \<and> pendings (session es) ! j = AwaitCounters bn inst
      \<and> promise_all3 ra rb rc = Inl err \<longrightarrow>
      (let w' = session (es @ [Settled j (Counters ra rb rc)])
       in st w' = st (session es) \<and> console w' = console (session es)
          \<and> unhandled w' = unhandled (session es) @ [err]
          \<and> subscriptions w' = 1
          \<and> pendings w' = take j (pendings (session es)) @ drop (Suc j) (pendings (session es))
          \<and> (\<exists>a. contractInstance (st w') = Some (Contract a)
                 \<and> step w' (NewBlock bn')
                     = w'\<lparr>pendings := pendings w' @ [AwaitCounters bn' (Contract a)]\<rparr>)))
   \<and> (j < length (pendings (session es))
      \<and> pendings (session es) ! j = AwaitCounters bn inst \<longrightarrow>
      st (session (es @ [Settled j (Counters (Inr ts) (Inr rm) (Inr pr))]))
        = (st (session es))\<lparr>blockNumber := Some bn, totalSupply := Some ts,
                              remaining := Some rm, price := Some pr\<rparr>
      \<and> pendings (session (es @ [Settled j (Counters (Inr ts) (Inr rm) (Inr pr))]))
        = take j (pendings (session es)) @ drop (Suc j) (pendings (session es))
          @ [AwaitBalances (map account.address (accounts (st (session es))))])
   \<and> (k < length (pendings (session es))
      \<and> pendings (session es) ! k = AwaitBalances addrs
      \<and> promise_all2 (promise_all (map balanceOf addrs)) (promise_all (map getBalance addrs))
          = Inl err \<longrightarrow>
      (let w' = session (es @ [Settled k (Balances balanceOf getBalance)])
       in st w' = st (session es) \<and> console w' = console (session es)
          \<and> unhandled w' = unhandled (session es) @ [err]
          \<and> subscriptions w' = 1
          \<and> pendings w' = take k (pendings (session es)) @ drop (Suc k) (pendings (session es))
          \<and> (\<exists>a. contractInstance (st w') = Some (Contract a)
                 \<and> step w' (NewBlock bn')
                     = w'\<lparr>pendings := pendings w' @ [AwaitCounters bn' (Contract a)]\<rparr>)))"
proof (intro conjI impI)
  assume h: "j < length (pendings (session es))
      \<and> pendings (session es) ! j = AwaitCounters bn inst
      \<and> promise_all3 ra rb rc = Inl err"
  then have run: "running (session es)"
    using session_pass_running [of j es] by simp
  have w': "session (es @ [Settled j (Counters ra rb rc)])
      = (remove_pending j (session es))\<lparr>unhandled := unhandled (session es) @ [err]\<rparr>"
    using h by (simp add: session_snoc settle_counters_rejected)
  show "let w' = session (es @ [Settled j (Counters ra rb rc)])
       in st w' = st (session es) \<and> console w' = console (session es)
          \<and> unhandled w' = unhandled (session es) @ [err]
          \<and> subscriptions w' = 1
          \<and> pendings w' = take j (pendings (session es)) @ drop (Suc j) (pendings (session es))
          \<and> (\<exists>a. contractInstance (st w') = Some (Contract a)
                 \<and> step w' (NewBlock bn')
                     = w'\<lparr>pendings := pendings w' @ [AwaitCounters bn' (Contract a)]\<rparr>)"
    unfolding Let_def by (rule rejected_pass_world [OF run w'])
next
  assume h: "j < length (pendings (session es))
      \<and> pendings (session es) ! j = AwaitCounters bn inst"
  then have s: "session (es @ [Settled j (Counters (Inr ts) (Inr rm) (Inr pr))])
      = (remove_pending j (session es))
          \<lparr>st := (st (session es))\<lparr>blockNumber := Some bn, totalSupply := Some ts,
                                    remaining := Some rm, price := Some pr\<rparr>,
           pendings := pendings (remove_pending j (session es))
                       @ [AwaitBalances (map account.address (accounts (st (session es))))]\<rparr>"
    by (simp add: session_snoc settle_counters)
  show "st (session (es @ [Settled j (Counters (Inr ts) (Inr rm) (Inr pr))]))
        = (st (session es))\<lparr>blockNumber := Some bn, totalSupply := Some ts,
                              remaining := Some rm, price := Some pr\<rparr>"
    by (simp add: s)
  show "pendings (session (es @ [Settled j (Counters (Inr ts) (Inr rm) (Inr pr))]))
        = take j (pendings (session es)) @ drop (Suc j) (pendings (session es))
          @ [AwaitBalances (map account.address (accounts (st (session es))))]"
    by (simp add: s remove_pending_def)
next
  assume h: "k < length (pendings (session es))
      \<and> pendings (session es) ! k = AwaitBalances addrs
      \<and> promise_all2 (promise_all (map balanceOf addrs)) (promise_all (map getBalance addrs))
          = Inl err"
  then have run: "running (session es)"
    using session_pass_running [of k es] by simp
  have w': "session (es @ [Settled k (Balances balanceOf getBalance)])
      = (remove_pending k (session es))\<lparr>unhandled := unhandled (session es) @ [err]\<rparr>"
    using h by (simp add: session_snoc settle_balances_rejected)
  show "let w' = session (es @ [Settled k (Balances balanceOf getBalance)])
       in st w' = st (session es) \<and> console w' = console (session es)
          \<and> unhandled w' = unhandled (session es) @ [err]
          \<and> subscriptions w' = 1
          \<and> pendings w' = take k (pendings (session es)) @ drop (Suc k) (pendings (session es))
          \<and> (\<exists>a. contractInstance (st w') = Some (Contract a)
                 \<and> step w' (NewBlock bn')
                     = w'\<lparr>pendings := pendings w' @ [AwaitCounters bn' (Contract a)]\<rparr>)"
    unfolding Let_def by (rule rejected_pass_world [OF run w'])
qed

theorem failed_read_commits_nothing_witness:
  "pendings (session (example_startup @ example_overlap))
     = [AwaitCounters 2 (Contract ''0xgav''), AwaitBalances [''0xa'', ''0xb'']]
   \<and> promise_all3 (Inl (Rejected ''timeout'')) (Inr (60 :: rat)) (Inr (3 :: rat))
       = Inl (Rejected ''timeout'')
   \<and> promise_all2 (promise_all (map failing_balanceOf [''0xa'', ''0xb'']))
                   (promise_all (map example_getBalance [''0xa'', ''0xb'']))
       = Inl (Rejected ''timeout'')
   \<and> st (session ((example_startup @ example_overlap)
         @ [Settled 0 (Counters (Inl (Rejected ''timeout'')) (Inr 60) (Inr 3))]))
       = st (session (example_startup @ example_overlap))
   \<and> subscriptions (session ((example_startup @ example_overlap)
         @ [Settled 0 (Counters (Inl (Rejected ''timeout'')) (Inr 60) (Inr 3))])) = 1
   \<and> blockNumber (st (session ((example_startup @ example_overlap)
         @ [Settled 0 (Counters (Inr 200) (Inr 60) (Inr 3))]))) = Some 2
   \<and> st (session ((example_startup @ example_overlap)
         @ [Settled 1 (Balances failing_balanceOf example_getBalance)]))
       = st (session (example_startup @ example_overlap))
   \<and> unhandled (session ((example_startup @ example_overlap)
         @ [Settled 1 (Balances failing_balanceOf example_getBalance)])) = [Rejected ''timeout'']
   \<and> subscriptions (session ((example_startup @ example_overlap)
         @ [Settled 1 (Balances failing_balanceOf example_getBalance)])) = 1"
proof -
  have p: "pendings (session (example_startup @ example_overlap))
     = [AwaitCounters 2 (Contract ''0xgav''), AwaitBalances [''0xa'', ''0xb'']]"
    by code_simp
  have u: "unhandled (session (example_startup @ example_overlap)) = []"
    by code_simp
  have r3: "promise_all3 (Inl (Rejected ''timeout'')) (Inr (60 :: rat)) (Inr (3 :: rat))
       = Inl (Rejected ''timeout'')"
    by (simp add: promise_all3_def promise_all2_def)
  have r2: "promise_all2 (promise_all (map failing_balanceOf [''0xa'', ''0xb'']))
                   (promise_all (map example_getBalance [''0xa'', ''0xb'']))
       = Inl (Rejected ''timeout'')"
    by (simp add: promise_all2_def failing_balanceOf_def example_getBalance_def)
  have h1: "0 < length (pendings (session (example_startup @ example_overlap)))
      \<and> pendings (session (example_startup @ example_overlap)) ! 0
          = AwaitCounters 2 (Contract ''0xgav'')
      \<and> promise_all3 (Inl (Rejected ''timeout'')) (Inr (60 :: rat)) (Inr (3 :: rat))
          = Inl (Rejected ''timeout'')"
    by (simp add: p r3)
  have h2: "0 < length (pendings (session (example_startup @ example_overlap)))
      \<and> pendings (session (example_startup @ example_overlap)) ! 0
          = AwaitCounters 2 (Contract ''0xgav'')"
    by (simp add: p)
  have h3: "1 < length (pendings (session (example_startup @ example_overlap)))
      \<and> pendings (session (example_startup @ example_overlap)) ! 1
          = AwaitBalances [''0xa'', ''0xb'']
      \<and> promise_all2 (promise_all (map failing_balanceOf [''0xa'', ''0xb'']))
                      (promise_all (map example_getBalance [''0xa'', ''0xb'']))
          = Inl (Rejected ''timeout'')"
    using p r2 by simp
  note t = failed_read_commits_nothing [of 0 "example_startup @ example_overlap" 2
      "Contract ''0xgav''" "Inl (Rejected ''timeout'')" "Inr 60" "Inr 3" "Rejected ''timeout''"
      3 200 60 3 1 "[''0xa'', ''0xb'']" failing_balanceOf example_getBalance,
      unfolded Let_def]
  from t h1 have c1: "st (session ((example_startup @ example_overlap)
         @ [Settled 0 (Counters (Inl (Rejected ''timeout'')) (Inr 60) (Inr 3))]))
       = st (session (example_startup @ example_overlap))
     \<and> subscriptions (session ((example_startup @ example_overlap)
         @ [Settled 0 (Counters (Inl (Rejected ''timeout'')) (Inr 60) (Inr 3))])) = 1"
    by blast
  from t h2 have "st (session ((example_startup @ example_overlap)
         @ [Settled 0 (Counters (Inr 200) (Inr 60) (Inr 3))]))
      = (st (session (example_startup @ example_overlap)))
          \<lparr>blockNumber := Some 2, totalSupply := Some 200,
            remaining := Some 60, price := Some 3\<rparr>"
    by blast
  then have c2: "blockNumber (st (session ((example_startup @ example_overlap)
         @ [Settled 0 (Counters (Inr 200) (Inr 60) (Inr 3))]))) = Some 2"
    by simp
  from t h3 have c3: "st (session ((example_startup @ example_overlap)
         @ [Settled 1 (Balances failing_balanceOf example_getBalance)]))
       = st (session (example_startup @ example_overlap))
     \<and> unhandled (session ((example_startup @ example_overlap)
         @ [Settled 1 (Balances failing_balanceOf example_getBalance)]))
       = unhandled (session (example_startup @ example_overlap)) @ [Rejected ''timeout'']
     \<and> subscriptions (session ((example_startup @ example_overlap)
         @ [Settled 1 (Balances failing_balanceOf example_getBalance)])) = 1"
    by blast
  show ?thesis
    using p r3 r2 c1 c2 c3 u by simp
qed

text \<open>
  The claim C3 as the spec states it fails: in the example session the counter reads of
  block 1 succeed and the token balance read of the second account fails; the state is
  then not the one before the pass, since it holds the pass's counters.
\<close>

theorem failed_pass_counterexample:
  "totalSupply (st (session example_startup)) = None
   \<and> promise_all (map failing_balanceOf [''0xa'', ''0xb'']) = Inl (Rejected ''timeout'')
   \<and> totalSupply (st (session (example_startup @ example_counters @ example_failing_balances)))
       = Some 100
   \<and> blockNumber (st (session (example_startup @ example_counters @ example_failing_balances)))
       = Some 1
   \<and> st (session (example_startup @ example_counters @ example_failing_balances))
       \<noteq> st (session example_startup)"
proof -
  have a: "totalSupply (st (session example_startup)) = None"
    by code_simp
  have b: "totalSupply (st (session (example_startup @ example_counters @ example_failing_balances)))
       = Some 100"
    by code_simp
  have c: "blockNumber (st (session (example_startup @ example_counters @ example_failing_balances)))
       = Some 1"
    by code_simp
  have d: "promise_all (map failing_balanceOf [''0xa'', ''0xb'']) = Inl (Rejected ''timeout'')"
    by (simp add: failing_balanceOf_def)
  have "st (session (example_startup @ example_counters @ example_failing_balances))
       \<noteq> st (session example_startup)"
    using a b by auto
  then show ?thesis using a b c d by blast
qed

subsection \<open>Errors of a pass\<close>

text \<open>
  C4. The promise chain of \<open>onNewBlockNumber\<close> ends without a rejection handler, unlike
  the chain of \<open>attachInterface\<close>, which ends in \<open>.catch\<close> with \<open>console.error\<close>. In the
  example session the read of the total supply is rejected: nothing is thrown to the
  notifier, and the error is not logged either; the console holds the two messages of
  the startup and the rejection stays unhandled.
\<close>

theorem pass_rejection_not_logged:
  "console (session (example_startup @ example_failing_counters))
     = [ConsoleLog ''the registry was found at 0xreg'', ConsoleLog ''gavcoin was found at 0xgav'']
   \<and> unhandled (session (example_startup @ example_failing_counters)) = [Rejected ''timeout'']
   \<and> thrown (session (example_startup @ example_failing_counters)) = []
   \<and> subscriptions (session (example_startup @ example_failing_counters)) = 1"
  by code_simp

subsection \<open>Enumerating the accounts\<close>

lemma new_accounts_length: "new_accounts addresses infos = Inr accs \<Longrightarrow> length accs = length addresses"
proof (induction addresses arbitrary: accs)
  case Nil
  then show ?case by simp
next
  case (Cons a as)
  then show ?case by (auto split: option.splits sum.splits)
qed

lemma new_accounts_nth:
  "new_accounts addresses infos = Inr accs \<Longrightarrow> i < length addresses \<Longrightarrow>
   \<exists>info. infos (addresses ! i) = Some info \<and> accs ! i = new_account (addresses ! i) info"
proof (induction addresses arbitrary: accs i)
  case Nil
  then show ?case by simp
next
  case (Cons a as)
  from Cons.prems(1) obtain info accs' where
    info: "infos a = Some info" and rest: "new_accounts as infos = Inr accs'"
    and accs: "accs = new_account a info # accs'"
    by (auto split: option.splits sum.splits)
  show ?case
  proof (cases i)
    case 0
    then show ?thesis using info accs by simp
  next
    case (Suc k)
    then have "k < length as" using Cons.prems(2) by simp
    from Cons.IH [OF rest this] show ?thesis using Suc accs by simp
  qed
qed

lemma new_accounts_total:
  "\<forall>a \<in> set addresses. infos a \<noteq> None \<Longrightarrow> \<exists>accs. new_accounts addresses infos = Inr accs"
  by (induction addresses) auto

text \<open>
  C8, as the code has it. When the account metadata has an entry for every listed address,
  the startup stores one account per address, in order: its name is the label of the
  metadata, or \<open>'Unnamed'\<close> when the label is undefined or empty; its \<open>balance\<close> is \<open>0\<close>;
  \<open>ethBalance\<close>, \<open>gavBalance\<close> and \<open>hasGav\<close> are not set (they read \<open>undefined\<close>) until the
  first pass sets them.
\<close>

theorem enumerated_accounts:
  assumes "\<forall>a \<in> set addresses. infos a \<noteq> None"
  shows "\<exists>accs. new_accounts addresses infos = Inr accs
           \<and> accounts (st (attachInterface_then2 (addr, addresses, infos) w)) = accs
           \<and> length accs = length addresses
           \<and> (\<forall>i < length addresses.
                 account.address (accs ! i) = addresses ! i
                 \<and> (\<exists>info. infos (addresses ! i) = Some info
                      \<and> account.name (accs ! i)
                          = (case account_info.name info of
                               None \<Rightarrow> ''Unnamed''
                             | Some n \<Rightarrow> if n = [] then ''Unnamed'' else n))
                 \<and> balance (accs ! i) = Some 0
                 \<and> account.ethBalance (accs ! i) = None
                 \<and> account.gavBalance (accs ! i) = None
                 \<and> hasGav (accs ! i) = None)"
proof -
  from new_accounts_total [OF assms] obtain accs where accs: "new_accounts addresses infos = Inr accs"
    by blast
  have "accounts (st (attachInterface_then2 (addr, addresses, infos) w)) = accs"
    by (simp add: attachInterface_then2_def accs)
  moreover have "length accs = length addresses"
    by (rule new_accounts_length [OF accs])
  moreover have "\<forall>i < length addresses.
                 account.address (accs ! i) = addresses ! i
                 \<and> (\<exists>info. infos (addresses ! i) = Some info
                      \<and> account.name (accs ! i)
                          = (case account_info.name info of
                               None \<Rightarrow> ''Unnamed''
                             | Some n \<Rightarrow> if n = [] then ''Unnamed'' else n))
                 \<and> balance (accs ! i) = Some 0
                 \<and> account.ethBalance (accs ! i) = None
                 \<and> account.gavBalance (accs ! i) = None
                 \<and> hasGav (accs ! i) = None"
  proof (intro allI impI)
    fix i
    assume "i < length addresses"
    from new_accounts_nth [OF accs this] obtain info where
      "infos (addresses ! i) = Some info" and "accs ! i = new_account (addresses ! i) info"
      by blast
    then show "account.address (accs ! i) = addresses ! i
                 \<and> (\<exists>info. infos (addresses ! i) = Some info
                      \<and> account.name (accs ! i)
                          = (case account_info.name info of
                               None \<Rightarrow> ''Unnamed''
                             | Some n \<Rightarrow> if n = [] then ''Unnamed'' else n))
                 \<and> balance (accs ! i) = Some 0
                 \<and> account.ethBalance (accs ! i) = None
                 \<and> account.gavBalance (accs ! i) = None
                 \<and> hasGav (accs ! i) = None"
      by (simp add: new_account_def)
  qed
  ultimately show ?thesis using accs by blast
qed

theorem enumerated_accounts_witness:
  "example_infos ''0xa'' \<noteq> None
   \<and> example_infos ''0xb'' \<noteq> None
   \<and> (\<exists>accs. new_accounts [''0xa'', ''0xb''] example_infos = Inr accs
         \<and> accounts (st (attachInterface_then2 (''0xgav'', [''0xa'', ''0xb''], example_infos)
                          initial_world)) = accs
         \<and> length accs = 2
         \<and> map account.name accs = [''Alice'', ''Unnamed''])"
proof -
  have h: "\<forall>a \<in> set [''0xa'', ''0xb'']. example_infos a \<noteq> None"
    by (simp add: example_infos_def)
  from enumerated_accounts [OF h, of "''0xgav''" initial_world]
  obtain accs where accs: "new_accounts [''0xa'', ''0xb''] example_infos = Inr accs"
    and st: "accounts (st (attachInterface_then2 (''0xgav'', [''0xa'', ''0xb''], example_infos)
                          initial_world)) = accs"
    and len: "length accs = length [''0xa'', ''0xb'']"
    by blast
  have "new_accounts [''0xa'', ''0xb''] example_infos
      = Inr [new_account ''0xa'' \<lparr>account_info.name = Some ''Alice''\<rparr>,
             new_account ''0xb'' \<lparr>account_info.name = None\<rparr>]"
    by (simp add: example_infos_def)
  then have "map account.name accs = [''Alice'', ''Unnamed'']"
    using accs by (auto simp: new_account_def)
  then show ?thesis using h accs st len by auto
qed

text \<open>
  The claim C8 as the spec states it fails in two places: an account that the startup
  creates has no \<open>hasGav\<close> field (it reads \<open>undefined\<close>, not \<open>false\<close>) and no \<open>ethBalance\<close> or
  \<open>gavBalance\<close>; and for an address without an entry in the metadata no account is
  produced at all, since reading the name throws.
\<close>

theorem enumerated_accounts_counterexample:
  "hasGav (new_account ''0xa'' \<lparr>account_info.name = Some ''Alice''\<rparr>) \<noteq> Some False
   \<and> account.gavBalance (new_account ''0xa'' \<lparr>account_info.name = Some ''Alice''\<rparr>) = None
   \<and> new_accounts [''0xa''] Map.empty = Inl (TypeError ''infos[address] is undefined'')"
  by (simp add: new_account_def)

subsection \<open>Startup\<close>

lemma untouched_fields:
  assumes "untouched w"
  shows "loading (st w)" and "blockNumber (st w) = None" and "contractInstance (st w) = None"
    and "subscriptions w = 0" and "unhandled w = []" and "thrown w = []"
proof -
  from assms have eq: "st w = initial_state\<lparr>action := action (st w)\<rparr>"
    by (simp add: untouched_def)
  show "loading (st w)"
    by (subst eq) (simp add: initial_state_def)
  show "blockNumber (st w) = None"
    by (subst eq) (simp add: initial_state_def)
  show "contractInstance (st w) = None"
    by (subst eq) (simp add: initial_state_def)
  show "subscriptions w = 0" and "unhandled w = []" and "thrown w = []"
    using assms by (simp_all add: untouched_def)
qed

lemma startup_failure_pending: "startup_failure p r = Some e \<Longrightarrow> startup_pending p"
  by (cases p) simp_all

lemma pass_not_startup: "pass_pending s p \<Longrightarrow> \<not> startup_pending p"
  by (cases p) simp_all

lemma session_startup_pending:
  assumes "i < length (pendings (session es))"
    and "startup_pending (pendings (session es) ! i)"
  shows "starting (session es) \<and> i = 0"
proof -
  have "\<not> failed (session es)"
    using assms(1) by (auto simp: failed_def)
  moreover have "\<not> running (session es)"
  proof
    assume "running (session es)"
    then have "pass_pending (st (session es)) (pendings (session es) ! i)"
      using assms(1) by (simp add: running_def list_all_length)
    then show False using assms(2) pass_not_startup by blast
  qed
  ultimately have s: "starting (session es)"
    using session_phase [of es] by blast
  then have "length (pendings (session es)) = 1"
    by (simp add: starting_def)
  then show ?thesis using s assms(1) by simp
qed

lemma startup_failure_step:
  assumes "starting w" and "startup_failure (pendings w ! 0) r = Some e"
  shows "failed (step w (Settled 0 r)) \<and> ConsoleError e \<in> set (console (step w (Settled 0 r)))"
proof -
  from assms(1) obtain p where p: "pendings w = [p]"
    by (cases "pendings w") (simp_all add: starting_def)
  have u: "untouched w"
    using assms(1) by (simp add: starting_def)
  have f: "startup_failure p r = Some e"
    using assms(2) p by simp
  have caught: "failed (attachInterface_catch e (w\<lparr>pendings := [], console := c\<rparr>))
      \<and> ConsoleError e \<in> set (console (attachInterface_catch e (w\<lparr>pendings := [], console := c\<rparr>)))"
    for c
    using u by (simp add: failed_def untouched_def attachInterface_catch_def)
  have w: "w\<lparr>pendings := []\<rparr> = w\<lparr>pendings := [], console := console w\<rparr>"
    by simp
  show ?thesis
  proof (cases p)
    case AwaitRegistryAddress
    show ?thesis
    proof (cases r)
      case (RegistryAddress ra)
      then have "ra = Inl e"
        using f AwaitRegistryAddress by (cases ra) simp_all
      then have "step w (Settled 0 r) = attachInterface_catch e (w\<lparr>pendings := []\<rparr>)"
        using p AwaitRegistryAddress RegistryAddress by (simp add: settle_single)
      then show ?thesis using caught [of "console w"] w by simp
    qed (use f AwaitRegistryAddress in simp_all)
  next
    case (AwaitLookup registry)
    show ?thesis
    proof (cases r)
      case (Lookup ra rb rc)
      show ?thesis
      proof (cases "promise_all3 ra rb rc")
        case (Inl e')
        then have "e' = e"
          using f AwaitLookup Lookup by simp
        then have "step w (Settled 0 r) = attachInterface_catch e (w\<lparr>pendings := []\<rparr>)"
          using p AwaitLookup Lookup Inl by (simp add: settle_single)
        then show ?thesis using caught [of "console w"] w by simp
      next
        case (Inr v)
        obtain addr addresses infos where v: "v = (addr, addresses, infos)"
          by (cases v)
        have "new_accounts addresses infos = Inl e"
          using f AwaitLookup Lookup Inr v by (cases "new_accounts addresses infos") simp_all
        then have "step w (Settled 0 r)
            = attachInterface_catch e
                (w\<lparr>pendings := [],
                   console := console w @ [ConsoleLog (''gavcoin was found at '' @ addr)]\<rparr>)"
          using p AwaitLookup Lookup Inr v
          by (simp add: settle_single attachInterface_then2_def)
        then show ?thesis
          using caught [of "console w @ [ConsoleLog (''gavcoin was found at '' @ addr)]"]
          by simp
      qed
    qed (use f AwaitLookup in simp_all)
  qed (use f in simp_all)
qed

text \<open>
  C5. When the startup chain fails before the first state is published (the registry
  address read, the contract lookup or one of the two account reads is rejected, or the
  metadata lacks an entry for a listed address), \<open>.catch\<close> logs the error, and whatever
  happens afterwards \<open>loading\<close> stays \<open>true\<close>, the state stays the initial one (but for
  the action), nothing is subscribed, no chain is pending, and a block notification
  changes nothing.
\<close>

theorem failed_startup_is_final:
  assumes "i < length (pendings (session es))"
    and "startup_failure (pendings (session es) ! i) r = Some e"
  shows "loading (st (session (es @ Settled i r # es')))
       \<and> ConsoleError e \<in> set (console (session (es @ Settled i r # es')))
       \<and> subscriptions (session (es @ Settled i r # es')) = 0
       \<and> pendings (session (es @ Settled i r # es')) = []
       \<and> st (session (es @ Settled i r # es'))
           = initial_state\<lparr>action := action (st (session (es @ Settled i r # es')))\<rparr>
       \<and> step (session (es @ Settled i r # es')) (NewBlock bn)
           = session (es @ Settled i r # es')"
proof -
  define w1 where "w1 = step (session es) (Settled i r)"
  define w2 where "w2 = session (es @ Settled i r # es')"
  have sp: "startup_pending (pendings (session es) ! i)"
    by (rule startup_failure_pending [OF assms(2)])
  from session_startup_pending [OF assms(1) sp]
  have s: "starting (session es)" and i: "i = 0" by simp_all
  from startup_failure_step [OF s] assms(2) i
  have f1: "failed w1" and c1: "ConsoleError e \<in> set (console w1)"
    by (simp_all add: w1_def)
  have idle: "subscriptions w1 = 0" "pendings w1 = []"
    using f1 by (simp_all add: failed_def untouched_def)
  have w2: "w2 = foldl step w1 es'"
    by (simp add: w2_def w1_def session_def)
  from run_idle [OF idle, of es'] obtain a where a: "w2 = w1\<lparr>st := (st w1)\<lparr>action := a\<rparr>\<rparr>"
    using w2 by auto
  have f2: "failed w2"
    unfolding a by (rule failed_action [OF f1])
  then have u2: "untouched w2"
    by (simp add: failed_def)
  have "loading (st w2)"
    by (rule untouched_fields(1) [OF u2])
  moreover have "ConsoleError e \<in> set (console w2)"
    using c1 by (simp add: a)
  moreover have "subscriptions w2 = 0"
    by (rule untouched_fields(4) [OF u2])
  moreover have "pendings w2 = []"
    using f2 by (simp add: failed_def)
  moreover have "st w2 = initial_state\<lparr>action := action (st w2)\<rparr>"
    using u2 by (simp add: untouched_def)
  moreover have "step w2 (NewBlock bn) = w2"
    using \<open>subscriptions w2 = 0\<close> by simp
  ultimately show ?thesis
    unfolding w2_def by blast
qed

theorem failed_startup_is_final_witness:
  "0 < length (pendings (session []))
   \<and> startup_failure (pendings (session []) ! 0) (RegistryAddress (Inl (Rejected ''unreachable'')))
       = Some (Rejected ''unreachable'')
   \<and> loading (st (session ([] @ Settled 0 (RegistryAddress (Inl (Rejected ''unreachable'')))
                              # [NewBlock 1, Click (JString ''BuyIn'')])))
   \<and> ConsoleError (Rejected ''unreachable'')
       \<in> set (console (session ([] @ Settled 0 (RegistryAddress (Inl (Rejected ''unreachable'')))
                                   # [NewBlock 1, Click (JString ''BuyIn'')])))
   \<and> subscriptions (session ([] @ Settled 0 (RegistryAddress (Inl (Rejected ''unreachable'')))
                                 # [NewBlock 1, Click (JString ''BuyIn'')])) = 0"
proof -
  have h1: "0 < length (pendings (session []))"
    by code_simp
  have h2: "startup_failure (pendings (session []) ! 0)
              (RegistryAddress (Inl (Rejected ''unreachable''))) = Some (Rejected ''unreachable'')"
    by code_simp
  from failed_startup_is_final [OF h1 h2, of "[NewBlock 1, Click (JString ''BuyIn'')]"] h1 h2
  show ?thesis by blast
qed

lemma continue_subscribes:
  assumes "continue p r w = Some w'" and "subscriptions w' \<noteq> subscriptions w"
  shows "\<exists>registry ra rb rc addr addresses infos accs.
           p = AwaitLookup registry \<and> r = Lookup ra rb rc
           \<and> promise_all3 ra rb rc = Inr (addr, addresses, infos)
           \<and> new_accounts addresses infos = Inr accs
           \<and> st w' = (st w)\<lparr>loading := False, address := Some addr,
                              contractInstance := Some (Contract addr), accounts := accs\<rparr>
           \<and> subscriptions w' = Suc (subscriptions w)"
proof (cases p)
  case AwaitRegistryAddress
  show ?thesis
  proof (cases r)
    case (RegistryAddress ra)
    then have "subscriptions w' = subscriptions w"
      using assms(1) AwaitRegistryAddress
      by (cases ra) (auto simp: attachInterface_catch_def attachInterface_then1_def)
    then show ?thesis using assms(2) by simp
  qed (use assms(1) AwaitRegistryAddress in simp_all)
next
  case (AwaitLookup registry)
  show ?thesis
  proof (cases r)
    case (Lookup ra rb rc)
    show ?thesis
    proof (cases "promise_all3 ra rb rc")
      case (Inl e)
      then have "subscriptions w' = subscriptions w"
        using assms(1) AwaitLookup Lookup by (auto simp: attachInterface_catch_def)
      then show ?thesis using assms(2) by simp
    next
      case (Inr v)
      obtain addr addresses infos where v: "v = (addr, addresses, infos)"
        by (cases v)
      have w': "w' = attachInterface_then2 (addr, addresses, infos) w"
        using assms(1) AwaitLookup Lookup Inr v by simp
      show ?thesis
      proof (cases "new_accounts addresses infos")
        case (Inl e)
        then have "subscriptions w' = subscriptions w"
          using w' by (simp add: attachInterface_then2_def attachInterface_catch_def)
        then show ?thesis using assms(2) by simp
      next
        case (Inr accs)
        then have "st w' = (st w)\<lparr>loading := False, address := Some addr,
                              contractInstance := Some (Contract addr), accounts := accs\<rparr>
           \<and> subscriptions w' = Suc (subscriptions w)"
          using w' by (simp add: attachInterface_then2_def)
        then show ?thesis
          using AwaitLookup Lookup \<open>promise_all3 ra rb rc = Inr v\<close> v Inr by blast
      qed
    qed
  qed (use assms(1) AwaitLookup in simp_all)
next
  case (AwaitCounters bn inst)
  show ?thesis
  proof (cases r)
    case (Counters ra rb rc)
    then have "subscriptions w' = subscriptions w"
      using assms(1) AwaitCounters
      by (auto simp: onNewBlockNumber_rejected_def onNewBlockNumber_then1_def
          split: sum.splits prod.splits)
    then show ?thesis using assms(2) by simp
  qed (use assms(1) AwaitCounters in simp_all)
next
  case (AwaitBalances addrs)
  show ?thesis
  proof (cases r)
    case (Balances balanceOf getBalance)
    then have "subscriptions w' = subscriptions w"
      using assms(1) AwaitBalances
      by (auto simp: onNewBlockNumber_rejected_def onNewBlockNumber_then2_def
          split: sum.splits prod.splits)
    then show ?thesis using assms(2) by simp
  qed (use assms(1) AwaitBalances in simp_all)
qed

lemma funpow_onNewBlockNumber_subscriptions:
  "subscriptions ((onNewBlockNumber bn ^^ n) w) = subscriptions w"
  by (induction n) (simp_all add: onNewBlockNumber_def split: option.splits)

lemma step_subscribes:
  assumes "subscriptions (step w ev) \<noteq> subscriptions w"
  shows "\<exists>i registry ra rb rc addr addresses infos accs.
           ev = Settled i (Lookup ra rb rc) \<and> i < length (pendings w)
           \<and> pendings w ! i = AwaitLookup registry
           \<and> promise_all3 ra rb rc = Inr (addr, addresses, infos)
           \<and> new_accounts addresses infos = Inr accs
           \<and> st (step w ev) = (st w)\<lparr>loading := False, address := Some addr,
                                       contractInstance := Some (Contract addr),
                                       accounts := accs\<rparr>
           \<and> subscriptions (step w ev) = Suc (subscriptions w)"
proof (cases ev)
  case (Click v)
  then show ?thesis using assms by simp
next
  case CloseClick
  then show ?thesis using assms by simp
next
  case (NewBlock bn)
  then show ?thesis using assms by (simp add: funpow_onNewBlockNumber_subscriptions)
next
  case (Settled i r)
  show ?thesis
  proof (cases "i < length (pendings w)")
    case True
    show ?thesis
    proof (cases "continue (pendings w ! i) r (remove_pending i w)")
      case None
      then show ?thesis using assms Settled True by (simp add: settle_def)
    next
      case (Some w')
      then have w': "step w ev = w'"
        using Settled True by (simp add: settle_def)
      have "subscriptions w' \<noteq> subscriptions (remove_pending i w)"
        using assms w' by (simp add: remove_pending_def)
      from continue_subscribes [OF Some this]
      obtain registry ra rb rc addr addresses infos accs where
        "pendings w ! i = AwaitLookup registry" "r = Lookup ra rb rc"
        "promise_all3 ra rb rc = Inr (addr, addresses, infos)"
        "new_accounts addresses infos = Inr accs"
        "st w' = (st (remove_pending i w))\<lparr>loading := False, address := Some addr,
                              contractInstance := Some (Contract addr), accounts := accs\<rparr>"
        "subscriptions w' = Suc (subscriptions (remove_pending i w))"
        by blast
      then show ?thesis
        using Settled True w' by (auto simp: remove_pending_def)
    qed
  next
    case False
    then show ?thesis using assms Settled by (simp add: settle_def)
  qed
qed

text \<open>
  C9. In every session the handler is subscribed at most once, and the only step that
  subscribes it is the second \<open>.then\<close> of \<open>attachInterface\<close>: it runs when the lookup that
  followed the registry address has resolved with the contract address, the addresses and
  the metadata, it builds the accounts, and its \<open>setState\<close> publishes \<open>loading = false\<close>,
  the address, the instance and the accounts. Any trace of a synchronization pass (a
  pending pass, a committed block number, an unhandled rejection) is found only in a
  session that is subscribed and has published that state, with the two startup messages
  on the console in their order; before that a block notification changes nothing, and
  the handler never throws to the notifier.
\<close>

theorem startup_precedes_synchronization:
  "subscriptions (session es) \<le> 1
   \<and> thrown (session es) = []
   \<and> (0 < subscriptions (session es) \<or> list_ex (\<lambda>p. \<not> startup_pending p) (pendings (session es))
        \<or> blockNumber (st (session es)) \<noteq> None \<or> unhandled (session es) \<noteq> []
      \<longrightarrow> subscriptions (session es) = 1 \<and> published (session es))
   \<and> (subscriptions (session es) = 0 \<longrightarrow> step (session es) (NewBlock bn) = session es)
   \<and> (subscriptions (step (session es) ev) \<noteq> subscriptions (session es) \<longrightarrow>
        (\<exists>i registry ra rb rc addr addresses infos accs.
           ev = Settled i (Lookup ra rb rc) \<and> i < length (pendings (session es))
           \<and> pendings (session es) ! i = AwaitLookup registry
           \<and> promise_all3 ra rb rc = Inr (addr, addresses, infos)
           \<and> new_accounts addresses infos = Inr accs
           \<and> st (step (session es) ev)
               = (st (session es))\<lparr>loading := False, address := Some addr,
                                     contractInstance := Some (Contract addr),
                                     accounts := accs\<rparr>
           \<and> subscriptions (session es) = 0
           \<and> subscriptions (step (session es) ev) = 1))"
proof -
  define w where "w = session es"
  have phase: "starting w \<or> failed w \<or> running w"
    unfolding w_def by (rule session_phase)
  have quiet: "subscriptions w = 0 \<and> thrown w = [] \<and> blockNumber (st w) = None
      \<and> unhandled w = [] \<and> \<not> list_ex (\<lambda>p. \<not> startup_pending p) (pendings w)"
    if "starting w \<or> failed w"
  proof -
    from that have u: "untouched w"
      by (auto simp: starting_def failed_def)
    from that have "\<not> list_ex (\<lambda>p. \<not> startup_pending p) (pendings w)"
    proof
      assume s: "starting w"
      then obtain p where "pendings w = [p]"
        by (cases "pendings w") (simp_all add: starting_def)
      then show ?thesis using s by (simp add: starting_def)
    next
      assume "failed w"
      then show ?thesis by (simp add: failed_def)
    qed
    then show ?thesis
      using untouched_fields [OF u] by simp
  qed
  have busy: "subscriptions w = 1 \<and> thrown w = [] \<and> published w" if "running w"
    using that by (simp add: running_def)
  have a: "subscriptions w \<le> 1" and b: "thrown w = []"
    using phase quiet busy by auto
  have c: "0 < subscriptions w \<or> list_ex (\<lambda>p. \<not> startup_pending p) (pendings w)
        \<or> blockNumber (st w) \<noteq> None \<or> unhandled w \<noteq> []
      \<longrightarrow> subscriptions w = 1 \<and> published w"
    using phase quiet busy by auto
  have d: "subscriptions w = 0 \<longrightarrow> step w (NewBlock bn) = w"
    by simp
  have e: "subscriptions (step w ev) \<noteq> subscriptions w \<longrightarrow>
        (\<exists>i registry ra rb rc addr addresses infos accs.
           ev = Settled i (Lookup ra rb rc) \<and> i < length (pendings w)
           \<and> pendings w ! i = AwaitLookup registry
           \<and> promise_all3 ra rb rc = Inr (addr, addresses, infos)
           \<and> new_accounts addresses infos = Inr accs
           \<and> st (step w ev)
               = (st w)\<lparr>loading := False, address := Some addr,
                         contractInstance := Some (Contract addr), accounts := accs\<rparr>
           \<and> subscriptions w = 0
           \<and> subscriptions (step w ev) = 1)"
  proof
    assume ne: "subscriptions (step w ev) \<noteq> subscriptions w"
    from step_subscribes [OF ne]
    obtain i registry ra rb rc addr addresses infos accs where
      f: "ev = Settled i (Lookup ra rb rc)" "i < length (pendings w)"
         "pendings w ! i = AwaitLookup registry"
         "promise_all3 ra rb rc = Inr (addr, addresses, infos)"
         "new_accounts addresses infos = Inr accs"
         "st (step w ev) = (st w)\<lparr>loading := False, address := Some addr,
                                   contractInstance := Some (Contract addr), accounts := accs\<rparr>"
         "subscriptions (step w ev) = Suc (subscriptions w)"
      by blast
    have "startup_pending (pendings (session es) ! i)"
      using f(3) by (simp add: w_def)
    with f(2) have "starting w"
      using session_startup_pending [of i es] by (simp add: w_def)
    then have "subscriptions w = 0"
      using quiet by simp
    then show "\<exists>i registry ra rb rc addr addresses infos accs.
           ev = Settled i (Lookup ra rb rc) \<and> i < length (pendings w)
           \<and> pendings w ! i = AwaitLookup registry
           \<and> promise_all3 ra rb rc = Inr (addr, addresses, infos)
           \<and> new_accounts addresses infos = Inr accs
           \<and> st (step w ev)
               = (st w)\<lparr>loading := False, address := Some addr,
                         contractInstance := Some (Contract addr), accounts := accs\<rparr>
           \<and> subscriptions w = 0
           \<and> subscriptions (step w ev) = 1"
      using f by auto
  qed
  show ?thesis
    using a b c d e unfolding w_def by blast
qed

theorem startup_precedes_synchronization_witness:
  "subscriptions (session (example_startup @ example_counters)) = 1
   \<and> blockNumber (st (session (example_startup @ example_counters))) \<noteq> None
   \<and> published (session (example_startup @ example_counters))
   \<and> subscriptions (session []) = 0
   \<and> step (session []) (NewBlock 1) = session []
   \<and> subscriptions (step (session [Settled 0 (RegistryAddress (Inr ''0xreg''))])
         (Settled 0 (Lookup (Inr ''0xgav'') (Inr [''0xa'', ''0xb'']) (Inr example_infos))))
       \<noteq> subscriptions (session [Settled 0 (RegistryAddress (Inr ''0xreg''))])
   \<and> subscriptions (step (session [Settled 0 (RegistryAddress (Inr ''0xreg''))])
         (Settled 0 (Lookup (Inr ''0xgav'') (Inr [''0xa'', ''0xb'']) (Inr example_infos)))) = 1
   \<and> loading (st (session [Settled 0 (RegistryAddress (Inr ''0xreg''))]))"
proof -
  have h1: "blockNumber (st (session (example_startup @ example_counters))) \<noteq> None"
    by code_simp
  have h2: "subscriptions (session []) = 0"
    by code_simp
  have h3: "subscriptions (step (session [Settled 0 (RegistryAddress (Inr ''0xreg''))])
         (Settled 0 (Lookup (Inr ''0xgav'') (Inr [''0xa'', ''0xb'']) (Inr example_infos))))
       \<noteq> subscriptions (session [Settled 0 (RegistryAddress (Inr ''0xreg''))])"
    by code_simp
  have h4: "loading (st (session [Settled 0 (RegistryAddress (Inr ''0xreg''))]))"
    by code_simp
  from startup_precedes_synchronization [of "example_startup @ example_counters"] h1
  have c1: "subscriptions (session (example_startup @ example_counters)) = 1
      \<and> published (session (example_startup @ example_counters))"
    by blast
  from startup_precedes_synchronization [of "[]" 1] h2
  have c2: "step (session []) (NewBlock 1) = session []"
    by blast
  from startup_precedes_synchronization [of "[Settled 0 (RegistryAddress (Inr ''0xreg''))]" _
      "Settled 0 (Lookup (Inr ''0xgav'') (Inr [''0xa'', ''0xb'']) (Inr example_infos))"] h3
  have c3: "subscriptions (step (session [Settled 0 (RegistryAddress (Inr ''0xreg''))])
         (Settled 0 (Lookup (Inr ''0xgav'') (Inr [''0xa'', ''0xb'']) (Inr example_infos)))) = 1"
    by blast
  show ?thesis
    using h1 h2 h3 h4 c1 c2 c3 by blast
qed

subsection \<open>Printed decimals denote the rounded number\<close>

lemma digit_cases:
  assumes "0 \<le> d" and "d < 10"
  shows "d \<in> {0, 1, 2, 3, 4, 5, 6, 7, 8, 9 :: int}"
proof -
  have "d = 0 \<or> d = 1 \<or> d = 2 \<or> d = 3 \<or> d = 4 \<or> d = 5 \<or> d = 6 \<or> d = 7 \<or> d = 8 \<or> d = 9"
    using assms by arith
  then show ?thesis by simp
qed

lemma digit_val_digit_char: "0 \<le> d \<Longrightarrow> d < 10 \<Longrightarrow> digit_val (digit_char d) = d"
  using digit_cases [of d] by (auto simp: digit_val_def digit_char_def)

lemma digit_char_digit: "0 \<le> d \<Longrightarrow> d < 10 \<Longrightarrow> digit_char d \<in> set ''0123456789''"
  using digit_cases [of d] by (auto simp: digit_char_def)

lemma digits_digit: "0 \<le> n \<Longrightarrow> set (digits n) \<subseteq> set ''0123456789''"
proof (induction n rule: digits.induct)
  case (1 n)
  show ?case
  proof (cases "n < 10")
    case True
    then show ?thesis
      using digit_char_digit [of n] "1.prems" by (subst digits.simps) simp
  next
    case False
    then have "set (digits (n div 10)) \<subseteq> set ''0123456789''"
      using "1.IH" "1.prems" by simp
    moreover have "digit_char (n mod 10) \<in> set ''0123456789''"
      by (rule digit_char_digit) simp_all
    ultimately show ?thesis
      using False by (subst digits.simps) simp
  qed
qed

lemma digits_not_empty: "digits n \<noteq> []"
  by (subst digits.simps) simp

lemma parse_int_snoc: "parse_int (s @ [c]) = 10 * parse_int s + digit_val c"
  by (simp add: parse_int_def)

lemma parse_int_digits: "0 \<le> n \<Longrightarrow> parse_int (digits n) = n"
proof (induction n rule: digits.induct)
  case (1 n)
  show ?case
  proof (cases "n < 10")
    case True
    then have "digits n = [digit_char n]"
      by (subst digits.simps) simp
    then show ?thesis
      using digit_val_digit_char [of n] True "1.prems" by (simp add: parse_int_def)
  next
    case False
    then have d: "digits n = digits (n div 10) @ [digit_char (n mod 10)]"
      by (subst digits.simps) simp
    have "parse_int (digits (n div 10)) = n div 10"
      using "1.IH" False "1.prems" by simp
    moreover have "digit_val (digit_char (n mod 10)) = n mod 10"
      by (rule digit_val_digit_char) simp_all
    ultimately show ?thesis
      by (simp add: d parse_int_snoc)
  qed
qed

lemma length_digits: "0 \<le> n \<Longrightarrow> n < 10 ^ k \<Longrightarrow> 0 < k \<Longrightarrow> length (digits n) \<le> k"
proof (induction n arbitrary: k rule: digits.induct)
  case (1 n)
  show ?case
  proof (cases "n < 10")
    case True
    then have "digits n = [digit_char n]"
      by (subst digits.simps) simp
    then show ?thesis using "1.prems" by simp
  next
    case False
    then have d: "digits n = digits (n div 10) @ [digit_char (n mod 10)]"
      by (subst digits.simps) simp
    obtain j where k: "k = Suc j"
      using "1.prems"(3) by (cases k) simp_all
    have "j \<noteq> 0"
      using False "1.prems"(2) k by (cases j) simp_all
    moreover have "n div 10 < 10 ^ j"
      using "1.prems"(2) k by simp
    ultimately have "length (digits (n div 10)) \<le> j"
      using "1.IH" [of j] False "1.prems"(1) by simp
    then show ?thesis by (simp add: d k)
  qed
qed

lemma parse_int_zeros: "parse_int (replicate k (CHR ''0'') @ s) = parse_int s"
  by (induction k) (simp_all add: parse_int_def digit_val_def)

lemma filter_group3:
  "CHR '','' \<notin> set s \<Longrightarrow> filter (\<lambda>c. c \<noteq> CHR '','') (group3 s) = s"
proof (induction s rule: group3.induct)
  case (1 s)
  show ?case
  proof (cases "length s \<le> 3")
    case True
    then have "group3 s = s"
      by (subst group3.simps) simp
    then show ?thesis using "1.prems" by (auto simp: filter_id_conv)
  next
    case False
    then have g: "group3 s = group3 (take (length s - 3) s) @ CHR '','' # drop (length s - 3) s"
      by (subst group3.simps) simp
    have "CHR '','' \<notin> set (take (length s - 3) s)"
      using "1.prems" by (auto dest: in_set_takeD)
    then have "filter (\<lambda>c. c \<noteq> CHR '','') (group3 (take (length s - 3) s)) = take (length s - 3) s"
      using "1.IH" False by simp
    moreover have "filter (\<lambda>c. c \<noteq> CHR '','') (drop (length s - 3) s) = drop (length s - 3) s"
      using "1.prems" by (auto simp: filter_id_conv dest: in_set_dropD)
    ultimately show ?thesis by (simp add: g)
  qed
qed

lemma set_group3: "set (group3 s) \<subseteq> insert (CHR '','') (set s)"
proof (induction s rule: group3.induct)
  case (1 s)
  show ?case
  proof (cases "length s \<le> 3")
    case True
    then have "group3 s = s"
      by (subst group3.simps) simp
    then show ?thesis by auto
  next
    case False
    then have g: "group3 s = group3 (take (length s - 3) s) @ CHR '','' # drop (length s - 3) s"
      by (subst group3.simps) simp
    have "set (group3 (take (length s - 3) s)) \<subseteq> insert (CHR '','') (set (take (length s - 3) s))"
      using "1.IH" False by simp
    then show ?thesis
      unfolding g by (auto dest: in_set_takeD in_set_dropD)
  qed
qed

lemma group3_not_empty: "s \<noteq> [] \<Longrightarrow> group3 s \<noteq> []"
  by (subst group3.simps) simp

lemma digit_not_separator:
  assumes "c \<in> set ''0123456789''"
  shows "c \<noteq> CHR '',''" and "c \<noteq> CHR ''.''" and "c \<noteq> CHR ''-''"
  using assms by auto

lemma bn_mantissa_nonneg: "0 \<le> bn_mantissa dp x"
proof -
  have "(0 :: rat) \<le> \<bar>x\<bar> * 10 ^ dp + 1 / 2"
    by simp
  then show ?thesis
    unfolding bn_mantissa_def by (simp only: zero_le_floor of_int_0)
qed

lemma pad_zeros_digits:
  assumes "0 \<le> n" and "n < 10 ^ dp" and "0 < dp"
  shows "length (pad_zeros dp (digits n)) = dp"
    and "parse_int (pad_zeros dp (digits n)) = n"
    and "set (pad_zeros dp (digits n)) \<subseteq> set ''0123456789''"
proof -
  have "length (digits n) \<le> dp"
    by (rule length_digits [OF assms])
  then show "length (pad_zeros dp (digits n)) = dp"
    by (simp add: pad_zeros_def)
  show "parse_int (pad_zeros dp (digits n)) = n"
    by (simp add: pad_zeros_def parse_int_zeros parse_int_digits [OF assms(1)])
  show "set (pad_zeros dp (digits n)) \<subseteq> set ''0123456789''"
    using digits_digit [OF assms(1)] by (auto simp: pad_zeros_def)
qed

lemma read_printed:
  fixes m :: int and dp :: nat
  assumes "0 \<le> m"
  defines "ds \<equiv> digits (m div 10 ^ dp)"
  defines "fr \<equiv> (if dp = 0 then [] else CHR ''.'' # pad_zeros dp (digits (m mod 10 ^ dp)))"
  shows "filter (\<lambda>c. c \<noteq> CHR '','') (group3 ds @ fr) = ds @ fr"
    and "takeWhile (\<lambda>c. c \<noteq> CHR ''.'') (ds @ fr) = ds"
    and "drop 1 (dropWhile (\<lambda>c. c \<noteq> CHR ''.'') (ds @ fr))
           = (if dp = 0 then [] else pad_zeros dp (digits (m mod 10 ^ dp)))"
    and "parse_int ds = m div 10 ^ dp"
    and "\<exists>c cs. group3 ds @ fr = c # cs \<and> c \<noteq> CHR ''-''"
proof -
  have ip: "0 \<le> m div 10 ^ dp"
    using assms(1) by (simp add: pos_imp_zdiv_nonneg_iff)
  have dsd: "set ds \<subseteq> set ''0123456789''"
    unfolding ds_def by (rule digits_digit [OF ip])
  have nocomma: "CHR '','' \<notin> set ds"
    using dsd digit_not_separator(1) by blast
  have nodot: "\<forall>c \<in> set ds. c \<noteq> CHR ''.''"
    using dsd digit_not_separator(2) by blast
  have frc: "filter (\<lambda>c. c \<noteq> CHR '','') fr = fr"
  proof (cases "dp = 0")
    case True
    then show ?thesis by (simp add: fr_def)
  next
    case False
    have "0 \<le> m mod 10 ^ dp" and "m mod 10 ^ dp < 10 ^ dp"
      by simp_all
    from pad_zeros_digits(3) [OF this] False
    have "\<forall>c \<in> set (pad_zeros dp (digits (m mod 10 ^ dp))). c \<noteq> CHR '',''"
      using digit_not_separator(1) by blast
    then show ?thesis
      using False by (simp add: fr_def filter_id_conv)
  qed
  show "filter (\<lambda>c. c \<noteq> CHR '','') (group3 ds @ fr) = ds @ fr"
    by (simp add: filter_group3 [OF nocomma] frc)
  show "takeWhile (\<lambda>c. c \<noteq> CHR ''.'') (ds @ fr) = ds"
    using nodot by (simp add: fr_def takeWhile_append2)
  show "drop 1 (dropWhile (\<lambda>c. c \<noteq> CHR ''.'') (ds @ fr))
           = (if dp = 0 then [] else pad_zeros dp (digits (m mod 10 ^ dp)))"
    using nodot by (simp add: fr_def dropWhile_append2)
  show "parse_int ds = m div 10 ^ dp"
    unfolding ds_def by (rule parse_int_digits [OF ip])
  have "ds \<noteq> []"
    unfolding ds_def by (rule digits_not_empty)
  then have "group3 ds \<noteq> []"
    by (rule group3_not_empty)
  then obtain c cs where g: "group3 ds = c # cs"
    by (cases "group3 ds") simp_all
  then have "c \<in> set (group3 ds)"
    by simp
  then have "c = CHR '','' \<or> c \<in> set ds"
    using set_group3 [of ds] by auto
  then have "c \<noteq> CHR ''-''"
    using dsd digit_not_separator(3) by auto
  then show "\<exists>c cs. group3 ds @ fr = c # cs \<and> c \<noteq> CHR ''-''"
    using g by simp
qed

lemma decimal_value_toFormat: "decimal_value (toFormat dp x) = bn_round dp x"
proof -
  define m where "m = bn_mantissa dp x"
  define ds where "ds = digits (m div 10 ^ dp)"
  define fr where "fr = (if dp = 0 then [] else CHR ''.'' # pad_zeros dp (digits (m mod 10 ^ dp)))"
  define v :: rat where "v = of_int m / 10 ^ dp"
  have m: "0 \<le> m"
    unfolding m_def by (rule bn_mantissa_nonneg)
  note r = read_printed [OF m, of dp, folded ds_def fr_def]
  have fp: "of_int (parse_int (if dp = 0 then [] else pad_zeros dp (digits (m mod 10 ^ dp))))
              / 10 ^ length (if dp = 0 then [] else pad_zeros dp (digits (m mod 10 ^ dp)))
            = (of_int (m mod 10 ^ dp) / 10 ^ dp :: rat)"
  proof (cases "dp = 0")
    case True
    then show ?thesis by (simp add: parse_int_def)
  next
    case False
    have "0 \<le> m mod 10 ^ dp" and "m mod 10 ^ dp < 10 ^ dp"
      by simp_all
    from pad_zeros_digits(1,2) [OF this] False show ?thesis by simp
  qed
  have split: "(of_int (m div 10 ^ dp) + of_int (m mod 10 ^ dp) / 10 ^ dp :: rat) = v"
  proof -
    have "(of_int m :: rat) = of_int ((m div 10 ^ dp) * 10 ^ dp + m mod 10 ^ dp)"
      by (simp only: div_mult_mod_eq)
    also have "\<dots> = of_int (m div 10 ^ dp) * 10 ^ dp + of_int (m mod 10 ^ dp)"
      by simp
    finally have "(of_int m :: rat) = of_int (m div 10 ^ dp) * 10 ^ dp + of_int (m mod 10 ^ dp)" .
    then show ?thesis
      unfolding v_def by (simp add: field_simps)
  qed
  have body: "(let body = filter (\<lambda>c. c \<noteq> CHR '','') (group3 ds @ fr);
                   ip = takeWhile (\<lambda>c. c \<noteq> CHR ''.'') body;
                   fp = drop 1 (dropWhile (\<lambda>c. c \<noteq> CHR ''.'') body)
               in (of_int (parse_int ip) + of_int (parse_int fp) / 10 ^ length fp :: rat)) = v"
    unfolding Let_def r(1) r(2) r(3) r(4) fp by (rule split)
  from r(5) obtain c cs where c: "group3 ds @ fr = c # cs" and nm: "c \<noteq> CHR ''-''"
    by blast
  have fmt: "toFormat dp x = (if x < 0 then ''-'' else []) @ group3 ds @ fr"
    by (simp add: toFormat_def Let_def m_def ds_def fr_def)
  show ?thesis
  proof (cases "x < 0")
    case True
    then have "toFormat dp x = CHR ''-'' # (group3 ds @ fr)"
      by (simp add: fmt)
    then have "decimal_value (toFormat dp x) = - v"
      using body by (simp add: decimal_value_def Let_def)
    then show ?thesis
      using True by (simp add: bn_round_def v_def m_def)
  next
    case False
    then have f: "toFormat dp x = c # cs"
      by (simp add: fmt c)
    have "decimal_value (c # cs) = v"
      using body nm unfolding c by (simp add: decimal_value_def Let_def)
    then show ?thesis
      using False by (simp add: f bn_round_def v_def m_def)
  qed
qed

lemma bn_round_exact:
  assumes "x * 10 ^ dp \<in> \<int>"
  shows "bn_round dp x = x"
proof -
  have "\<bar>x\<bar> * 10 ^ dp = \<bar>x * 10 ^ dp\<bar>"
    by (simp add: abs_mult)
  also have "\<dots> \<in> \<int>"
    using assms by simp
  finally obtain k :: int where k: "\<bar>x\<bar> * 10 ^ dp = of_int k"
    by (auto elim: Ints_cases)
  have "bn_mantissa dp x = k"
  proof -
    have "\<lfloor>(of_int k :: rat) + 1 / 2\<rfloor> = k"
      by (simp add: floor_unique)
    then show ?thesis
      by (simp add: bn_mantissa_def k)
  qed
  then have "(of_int (bn_mantissa dp x) :: rat) / 10 ^ dp = \<bar>x\<bar>"
    using k by (simp add: field_simps)
  then show ?thesis
    by (simp add: bn_round_def)
qed

lemma bn_div_exact:
  assumes "x \<in> \<int>" and "k \<le> DECIMAL_PLACES"
  shows "bn_div x (10 ^ k) = x / 10 ^ k"
proof -
  have "x / 10 ^ k * 10 ^ DECIMAL_PLACES = x * 10 ^ (DECIMAL_PLACES - k)"
    using assms(2) by (simp add: power_diff field_simps)
  also have "\<dots> \<in> \<int>"
    using assms(1) by simp
  finally show ?thesis
    unfolding bn_div_def by (rule bn_round_exact)
qed

lemma bn_round_error: "\<bar>bn_round dp x - x\<bar> \<le> 1 / (2 * 10 ^ dp)"
proof -
  define y where "y = \<bar>x\<bar> * 10 ^ dp"
  define m where "m = bn_mantissa dp x"
  have m: "m = \<lfloor>y + 1 / 2\<rfloor>"
    by (simp add: m_def y_def bn_mantissa_def)
  have "of_int m \<le> y + 1 / 2" and "y + 1 / 2 < of_int m + 1"
    unfolding m by linarith+
  then have half: "\<bar>of_int m - y\<bar> \<le> 1 / 2"
    by linarith
  have "\<bar>of_int m - y\<bar> / 10 ^ dp \<le> (1 / 2) / 10 ^ dp"
    by (rule divide_right_mono [OF half]) simp
  also have "(1 / 2) / 10 ^ dp = (1 :: rat) / (2 * 10 ^ dp)"
    by simp
  finally have "\<bar>of_int m - y\<bar> / 10 ^ dp \<le> 1 / (2 * 10 ^ dp)" .
  moreover have "\<bar>of_int m - y\<bar> / 10 ^ dp = \<bar>of_int m / 10 ^ dp - \<bar>x\<bar>\<bar>"
  proof -
    have "of_int m / 10 ^ dp - \<bar>x\<bar> = (of_int m - y) / 10 ^ dp"
      by (simp add: y_def field_simps)
    then show ?thesis by simp
  qed
  ultimately have e: "\<bar>of_int m / 10 ^ dp - \<bar>x\<bar>\<bar> \<le> 1 / (2 * 10 ^ dp)"
    by simp
  show ?thesis
  proof (cases "x < 0")
    case True
    then have "bn_round dp x - x = - (of_int m / 10 ^ dp - \<bar>x\<bar>)"
      by (simp add: bn_round_def m_def)
    then show ?thesis using e by simp
  next
    case False
    then have "bn_round dp x - x = of_int m / 10 ^ dp - \<bar>x\<bar>"
      by (simp add: bn_round_def m_def)
    then show ?thesis using e by simp
  qed
qed

subsection \<open>The accounts after a pass\<close>

lemma displayed_token_amount:
  assumes "x \<in> \<int>"
  shows "decimal_value (toFormat 6 (bn_div x DIVISOR)) = x / 10 ^ 6"
proof -
  have d: "bn_div x DIVISOR = x / 10 ^ 6"
    unfolding DIVISOR_def by (rule bn_div_exact [OF assms]) (simp add: DECIMAL_PLACES_def)
  have "x / 10 ^ 6 * 10 ^ 6 = x"
    by simp
  then have "x / 10 ^ 6 * 10 ^ 6 \<in> \<int>"
    using assms by simp
  then have "bn_round 6 (x / 10 ^ 6) = x / 10 ^ 6"
    by (rule bn_round_exact)
  then show ?thesis
    by (simp add: d decimal_value_toFormat)
qed

lemma displayed_native_amount:
  assumes "x \<in> \<int>"
  shows "\<bar>decimal_value (toFormat 3 (fromWei x)) - x / 10 ^ 18\<bar> \<le> 1 / 2000"
proof -
  have d: "fromWei x = x / 10 ^ 18"
    unfolding fromWei_def by (rule bn_div_exact [OF assms]) (simp add: DECIMAL_PLACES_def)
  have "\<bar>bn_round 3 (x / 10 ^ 18) - x / 10 ^ 18\<bar> \<le> 1 / (2 * 10 ^ 3)"
    by (rule bn_round_error)
  then show ?thesis
    by (simp add: d decimal_value_toFormat)
qed

text \<open>
  C7. When the balance reads of a pass have resolved and its second \<open>setState\<close> has run,
  every account of the state keeps its address and name, its \<open>hasGav\<close> says whether the raw
  token balance read for its address is greater than zero, its \<open>gavBalance\<close> is the raw
  token balance divided by \<open>10^6\<close> and printed with six decimals, which denotes the quotient
  exactly for a whole number of base units, and its \<open>ethBalance\<close> is the native balance
  converted from wei and printed with three decimals, which denotes the converted amount
  rounded to the nearest thousandth.
\<close>

theorem account_balances_displayed:
  assumes "j < length (pendings (session es))"
    and "pendings (session es) ! j = AwaitBalances addrs"
    and "\<forall>a \<in> set addrs. balanceOf a = Inr (g a) \<and> getBalance a = Inr (e a)"
    and "i < length addrs"
  shows "length (accounts (st (session (es @ [Settled j (Balances balanceOf getBalance)]))))
           = length addrs
       \<and> account.address (accounts (st (session (es @ [Settled j (Balances balanceOf getBalance)]))) ! i)
           = addrs ! i
       \<and> account.name (accounts (st (session (es @ [Settled j (Balances balanceOf getBalance)]))) ! i)
           = account.name (accounts (st (session es)) ! i)
       \<and> hasGav (accounts (st (session (es @ [Settled j (Balances balanceOf getBalance)]))) ! i)
           = Some (0 < g (addrs ! i))
       \<and> account.gavBalance
             (accounts (st (session (es @ [Settled j (Balances balanceOf getBalance)]))) ! i)
           = Some (toFormat 6 (bn_div (g (addrs ! i)) DIVISOR))
       \<and> account.ethBalance
             (accounts (st (session (es @ [Settled j (Balances balanceOf getBalance)]))) ! i)
           = Some (toFormat 3 (fromWei (e (addrs ! i))))
       \<and> (g (addrs ! i) \<in> \<int> \<longrightarrow>
            decimal_value (toFormat 6 (bn_div (g (addrs ! i)) DIVISOR)) = g (addrs ! i) / 10 ^ 6)
       \<and> (e (addrs ! i) \<in> \<int> \<longrightarrow>
            \<bar>decimal_value (toFormat 3 (fromWei (e (addrs ! i)))) - e (addrs ! i) / 10 ^ 18\<bar>
              \<le> 1 / 2000)"
proof -
  define accs where "accs = accounts (st (session es))"
  define accs' where
    "accs' = accounts (st (session (es @ [Settled j (Balances balanceOf getBalance)])))"
  have addrs: "addrs = map account.address accs"
    unfolding accs_def by (rule session_balances_pending [OF assms(1,2)])
  have nth: "pendings (session es) ! j
      = AwaitBalances (map account.address (accounts (st (session es))))"
    using assms(2) addrs by (simp add: accs_def)
  have reads: "\<forall>a \<in> set (accounts (st (session es))).
           balanceOf (account.address a) = Inr (g (account.address a))
           \<and> getBalance (account.address a) = Inr (e (account.address a))"
    using assms(3) addrs by (simp add: accs_def)
  have accs': "accs' = map (\<lambda>a. update_account a (e (account.address a)) (g (account.address a))) accs"
    unfolding accs'_def accs_def session_snoc step.simps
      balances_settled_at [OF assms(1) nth reads]
    by simp
  have i: "i < length accs"
    using assms(4) addrs by simp
  have ai: "account.address (accs ! i) = addrs ! i"
    using i addrs by simp
  have upd: "accs' ! i = update_account (accs ! i) (e (addrs ! i)) (g (addrs ! i))"
    using i ai by (simp add: accs')
  have "length accs' = length addrs"
    by (simp add: accs' addrs)
  moreover have "account.address (accs' ! i) = addrs ! i"
    by (simp add: upd update_account_def ai)
  moreover have "account.name (accs' ! i) = account.name (accs ! i)"
    by (simp add: upd update_account_def)
  moreover have "hasGav (accs' ! i) = Some (0 < g (addrs ! i))"
    by (simp add: upd update_account_def bn_gt_def)
  moreover have "account.gavBalance (accs' ! i) = Some (toFormat 6 (bn_div (g (addrs ! i)) DIVISOR))"
    by (simp add: upd update_account_def)
  moreover have "account.ethBalance (accs' ! i) = Some (toFormat 3 (fromWei (e (addrs ! i))))"
    by (simp add: upd update_account_def)
  ultimately show ?thesis
    using displayed_token_amount [of "g (addrs ! i)"] displayed_native_amount [of "e (addrs ! i)"]
    unfolding accs'_def accs_def by blast
qed

theorem account_balances_displayed_witness:
  "0 < length (pendings (session (example_startup @ example_counters)))
   \<and> pendings (session (example_startup @ example_counters)) ! 0 = AwaitBalances [''0xa'', ''0xb'']
   \<and> example_balanceOf ''0xa'' = Inr 7000000
   \<and> example_balanceOf ''0xb'' = Inr 0
   \<and> example_getBalance ''0xa'' = Inr 1234567891234567891234
   \<and> example_getBalance ''0xb'' = Inr 1000000000000000000
   \<and> hasGav (accounts (st (session ((example_startup @ example_counters)
         @ [Settled 0 (Balances example_balanceOf example_getBalance)]))) ! 0) = Some True
   \<and> account.gavBalance (accounts (st (session ((example_startup @ example_counters)
         @ [Settled 0 (Balances example_balanceOf example_getBalance)]))) ! 0) = Some ''7.000000''
   \<and> account.ethBalance (accounts (st (session ((example_startup @ example_counters)
         @ [Settled 0 (Balances example_balanceOf example_getBalance)]))) ! 0) = Some ''1,234.568''
   \<and> decimal_value ''7.000000'' = 7000000 / 10 ^ 6
   \<and> \<bar>decimal_value ''1,234.568'' - 1234567891234567891234 / 10 ^ 18\<bar> \<le> 1 / 2000"
proof -
  have h1: "0 < length (pendings (session (example_startup @ example_counters)))"
    by code_simp
  have h2: "pendings (session (example_startup @ example_counters)) ! 0
      = AwaitBalances [''0xa'', ''0xb'']"
    by code_simp
  have r: "example_balanceOf ''0xa'' = Inr 7000000" "example_balanceOf ''0xb'' = Inr 0"
    "example_getBalance ''0xa'' = Inr 1234567891234567891234"
    "example_getBalance ''0xb'' = Inr 1000000000000000000"
    by (simp_all add: example_balanceOf_def example_getBalance_def)
  have h3: "\<forall>a \<in> set [''0xa'', ''0xb''].
         example_balanceOf a = Inr (if a = ''0xa'' then 7000000 else 0)
         \<and> example_getBalance a
             = Inr (if a = ''0xa'' then 1234567891234567891234 else 1000000000000000000)"
    by (simp add: example_balanceOf_def example_getBalance_def)
  have h4: "0 < length [''0xa'', ''0xb'']"
    by simp
  have f6: "toFormat 6 (bn_div 7000000 DIVISOR) = ''7.000000''"
    by code_simp
  have f3: "toFormat 3 (fromWei 1234567891234567891234) = ''1,234.568''"
    by code_simp
  have z: "(7000000 :: rat) \<in> \<int>" "(1234567891234567891234 :: rat) \<in> \<int>"
    by simp_all
  from account_balances_displayed [OF h1 h2 h3 h4] z
  show ?thesis
    using h1 h2 r by (simp add: f6 f3)
qed

end
